theory Spec2Isabelle
  imports Main "HOL-Library.AList" "HOL-Library.Word"
begin

unbundle bit_operations_syntax

section \<open>The external resource behind a monitored item\<close>

text \<open>
  A \<^verbatim>\<open>RegistryKey\<close> and a \<^verbatim>\<open>PlistFile\<close> both reach their external value through a
  \<^verbatim>\<open>QSettings\<close> object. The resource is modelled by what a read can find there
  (the plist file missing, the key missing, an invalid variant, or a value), by
  whether a write takes effect, and by a log of the write and sync calls made on it.
\<close>

datatype resource = FileMissing | KeyMissing | InvalidValue | Val string

record qsettings =
  resource :: resource
  writable :: bool
  writes :: "string list"
  syncs :: nat

text \<open>\<^verbatim>\<open>QSettings::value(name).toString()\<close>: an absent or invalid value reads as the empty string.\<close>

fun QSettings_value :: "qsettings \<Rightarrow> string" where
  "QSettings_value s = (case resource s of Val v \<Rightarrow> v | _ \<Rightarrow> [])"

text \<open>\<^verbatim>\<open>QSettings::setValue(name, v)\<close>: the call is logged; it takes effect on a writable resource only.\<close>

definition QSettings_setValue :: "string \<Rightarrow> qsettings \<Rightarrow> qsettings" where
  "QSettings_setValue v s =
     (if writable s then s\<lparr>resource := Val v, writes := writes s @ [v]\<rparr>
      else s\<lparr>writes := writes s @ [v]\<rparr>)"

definition QSettings_sync :: "qsettings \<Rightarrow> qsettings" where
  "QSettings_sync s = s\<lparr>syncs := Suc (syncs s)\<rparr>"

section \<open>Monitored items: RegistryKey and PlistFile\<close>

text \<open>
  The two classes have the same members; one record serves both, and the functions whose
  bodies differ are given once per class. \<open>m_path\<close> is \<^verbatim>\<open>m_keyPath\<close> or \<^verbatim>\<open>m_plistPath\<close>.
  \<open>m_changeCount\<close> is a C++ \<^verbatim>\<open>int\<close>; it is modelled by an unbounded integer, which agrees
  with the code below \<^verbatim>\<open>INT_MAX\<close>.
\<close>

datatype platform = Windows | MacOS

record item =
  m_path :: string
  m_valueName :: string
  m_isCritical :: bool
  m_value :: string
  m_previousValue :: string
  m_newValue :: string
  m_changeCount :: int
  m_rollbackCancelled :: bool
  m_qsettings :: qsettings

datatype channel = Email | Sms

datatype effect =
    StatusChanged string
  | TimerStart int
  | TimerStop
  | ValueChanged
  | LogMessage string
  | RollbackPerformed string
  | CriticalChangeDetected string
  | SendAlert string
  | Delivery channel string string bool
  | SingleShot int string string

definition RegistryKey_readCurrentValue :: "item \<Rightarrow> string" where
  "RegistryKey_readCurrentValue k = QSettings_value (m_qsettings k)"

definition RegistryKey_getCurrentValue :: "item \<Rightarrow> string" where
  "RegistryKey_getCurrentValue k = RegistryKey_readCurrentValue k"

text \<open>
  \<^verbatim>\<open>PlistFile::getCurrentValue\<close>: each of the three failed checks logs a warning and
  returns \<^verbatim>\<open>QString()\<close>.
\<close>

definition PlistFile_getCurrentValue :: "item \<Rightarrow> string" where
  "PlistFile_getCurrentValue p =
     (case resource (m_qsettings p) of
        FileMissing \<Rightarrow> []
      | KeyMissing \<Rightarrow> []
      | InvalidValue \<Rightarrow> []
      | Val v \<Rightarrow> v)"

fun getCurrentValue :: "platform \<Rightarrow> item \<Rightarrow> string" where
  "getCurrentValue Windows k = RegistryKey_getCurrentValue k"
| "getCurrentValue MacOS p = PlistFile_getCurrentValue p"

text \<open>
  \<^verbatim>\<open>RegistryKey::setValue\<close>: guarded by \<^verbatim>\<open>m_value != value\<close>; shifts the cached value into
  \<open>m_previousValue\<close>, writes and syncs. The re-read after the write is only logged.
\<close>

definition RegistryKey_setValue :: "string \<Rightarrow> item \<Rightarrow> item \<times> effect list" where
  "RegistryKey_setValue v k =
     (if m_value k \<noteq> v then
        (k\<lparr>m_previousValue := m_value k, m_value := v,
           m_qsettings := QSettings_sync (QSettings_setValue v (m_qsettings k))\<rparr>, [])
      else (k, []))"

text \<open>\<^verbatim>\<open>PlistFile::setValue\<close>: the same, and it emits \<^verbatim>\<open>valueChanged\<close> and \<^verbatim>\<open>logMessage\<close>.\<close>

definition PlistFile_setValue :: "string \<Rightarrow> item \<Rightarrow> item \<times> effect list" where
  "PlistFile_setValue v p =
     (if m_value p \<noteq> v then
        (p\<lparr>m_previousValue := m_value p, m_value := v,
           m_qsettings := QSettings_sync (QSettings_setValue v (m_qsettings p))\<rparr>,
         [ValueChanged,
          LogMessage (''[LOG] Plist: '' @ m_valueName p @ '', Prev: '' @ m_value p @ '', New: '' @ v)])
      else (p, []))"

fun setValue :: "platform \<Rightarrow> string \<Rightarrow> item \<Rightarrow> item \<times> effect list" where
  "setValue Windows v k = RegistryKey_setValue v k"
| "setValue MacOS v p = PlistFile_setValue v p"

definition setRollbackCancelled :: "bool \<Rightarrow> item \<Rightarrow> item" where
  "setRollbackCancelled c k = k\<lparr>m_rollbackCancelled := c\<rparr>"

definition setNewValue :: "string \<Rightarrow> item \<Rightarrow> item" where
  "setNewValue v k = k\<lparr>m_newValue := v\<rparr>"

definition setPreviousValue :: "string \<Rightarrow> item \<Rightarrow> item" where
  "setPreviousValue v k = k\<lparr>m_previousValue := v\<rparr>"

definition incrementChangeCount :: "item \<Rightarrow> item" where
  "incrementChangeCount k = k\<lparr>m_changeCount := m_changeCount k + 1\<rparr>"

definition resetChangeCount :: "item \<Rightarrow> item" where
  "resetChangeCount k = k\<lparr>m_changeCount := 0\<rparr>"

section \<open>Qt string helpers\<close>

text \<open>
  \<^verbatim>\<open>QString::toInt()\<close> as Qt documents it: surrounding whitespace is ignored, an optional
  sign is followed by decimal digits, and the result is 0 when the text is not a number or
  does not fit a 32-bit \<^verbatim>\<open>int\<close>.
\<close>

definition isSpace :: "char \<Rightarrow> bool" where
  "isSpace c = (let n = (of_char c :: nat) in n = 32 \<or> (9 \<le> n \<and> n \<le> 13))"

definition trimmed :: "string \<Rightarrow> string" where
  "trimmed s = rev (dropWhile isSpace (rev (dropWhile isSpace s)))"

definition digit_of :: "char \<Rightarrow> int option" where
  "digit_of c = (let n = (of_char c :: nat) in if 48 \<le> n \<and> n \<le> 57 then Some (int n - 48) else None)"

fun parse_digits :: "int \<Rightarrow> string \<Rightarrow> int option" where
  "parse_digits acc [] = Some acc"
| "parse_digits acc (c # cs) =
     (case digit_of c of None \<Rightarrow> None | Some d \<Rightarrow> parse_digits (10 * acc + d) cs)"

definition QString_toInt :: "string \<Rightarrow> int" where
  "QString_toInt s =
     (let t = trimmed s;
          neg = (t \<noteq> [] \<and> hd t = CHR ''-'');
          ds = (if t \<noteq> [] \<and> (hd t = CHR ''-'' \<or> hd t = CHR ''+'') then tl t else t)
      in if ds = [] then 0
         else (case parse_digits 0 ds of
                 None \<Rightarrow> 0
               | Some n \<Rightarrow>
                   (let v = (if neg then - n else n)
                    in if - 2147483648 \<le> v \<and> v \<le> 2147483647 then v else 0)))"

text \<open>\<^verbatim>\<open>a.compare(b, Qt::CaseInsensitive) == 0\<close>, on ASCII letters.\<close>

definition toLower :: "char \<Rightarrow> char" where
  "toLower c = (let n = (of_char c :: nat) in if 65 \<le> n \<and> n \<le> 90 then char_of (n + 32) else c)"

definition equal_ci :: "string \<Rightarrow> string \<Rightarrow> bool" where
  "equal_ci a b = (map toLower a = map toLower b)"

text \<open>\<^verbatim>\<open>QHash<QString, QString>::value(key)\<close>: the default-constructed (empty) string when absent.\<close>

definition QHash_value :: "(string \<times> string) list \<Rightarrow> string \<Rightarrow> string" where
  "QHash_value h k = (case map_of h k of None \<Rightarrow> [] | Some v \<Rightarrow> v)"

section \<open>Settings and Database\<close>

record settings =
  m_nonCriticalAlertThreshold :: string
  m_notificationFrequency :: string

text \<open>
  The three relations of \<^verbatim>\<open>Database\<close>, holding plain text (encryption at rest is left
  out). A statement on a database that is not connected fails and changes nothing; the
  monitoring code ignores the returned \<^verbatim>\<open>bool\<close>.
\<close>

record change_row =
  config_name :: string
  old_value :: string
  new_value :: string
  acknowledged :: bool
  critical :: bool

record config_row =
  config_path :: string
  config_value :: string
  is_critical :: bool

record user_row =
  user_email :: string
  phone_number :: string

record database =
  connected :: bool
  Changes :: "change_row list"
  ConfigurationSettings :: "(string \<times> config_row) list"
  UserSettings :: "user_row list"

text \<open>
  \<^verbatim>\<open>Database::insertChange(configName, oldValue, newValue, acknowledged, critical = false)\<close>:
  the header gives the last parameter a default, which both callers rely on.
\<close>

definition insertChange :: "string \<Rightarrow> string \<Rightarrow> string \<Rightarrow> bool \<Rightarrow> bool \<Rightarrow> database \<Rightarrow> database" where
  "insertChange configName oldValue newValue ack crit db =
     (if connected db then
        db\<lparr>Changes := Changes db @
             [\<lparr>config_name = configName, old_value = oldValue, new_value = newValue,
               acknowledged = ack, critical = crit\<rparr>]\<rparr>
      else db)"

definition insertChange_default_critical :: bool where
  "insertChange_default_critical = False"

definition insertOrUpdateConfiguration :: "string \<Rightarrow> string \<Rightarrow> string \<Rightarrow> bool \<Rightarrow> database \<Rightarrow> database" where
  "insertOrUpdateConfiguration configName configPath configValue isCritical db =
     (if connected db then
        db\<lparr>ConfigurationSettings :=
             AList.update configName
               \<lparr>config_path = configPath, config_value = configValue, is_critical = isCritical\<rparr>
               (ConfigurationSettings db)\<rparr>
      else db)"

definition getAllUserSettings :: "database \<Rightarrow> user_row list" where
  "getAllUserSettings db = (if connected db then UserSettings db else [])"

section \<open>Alert\<close>

text \<open>
  \<^verbatim>\<open>Alert\<close>: whether the two AWS clients and the database handle were created, and the
  timestamps of the alerts sent (milliseconds). The AWS transport is outside the
  repository: it is a function telling whether a delivery on a channel succeeds.
\<close>

record alert =
  m_snsClient :: bool
  m_sesv2Client :: bool
  m_database_set :: bool
  m_alertTimestamps :: "int list"

type_synonym transport = "channel \<Rightarrow> string \<Rightarrow> string \<Rightarrow> bool"

definition sendSmsAlert :: "transport \<Rightarrow> alert \<Rightarrow> string \<Rightarrow> string \<Rightarrow> bool \<times> effect list" where
  "sendSmsAlert tr a phoneNumber message =
     (if \<not> m_snsClient a then (False, [])
      else (tr Sms phoneNumber message, [Delivery Sms phoneNumber message (tr Sms phoneNumber message)]))"

definition sendEmailAlert :: "transport \<Rightarrow> alert \<Rightarrow> string \<Rightarrow> string \<Rightarrow> bool \<times> effect list" where
  "sendEmailAlert tr a email message =
     (if \<not> m_sesv2Client a then (False, [])
      else (tr Email email message, [Delivery Email email message (tr Email email message)]))"

text \<open>The loop of \<^verbatim>\<open>sendAlert\<close> over the user settings, carrying \<^verbatim>\<open>anySent\<close>.\<close>

fun send_each :: "transport \<Rightarrow> alert \<Rightarrow> string \<Rightarrow> user_row list \<Rightarrow> bool \<Rightarrow> bool \<times> effect list" where
  "send_each tr a message [] anySent = (anySent, [])"
| "send_each tr a message (u # us) anySent =
     (let e = (if user_email u \<noteq> [] then sendEmailAlert tr a (user_email u) message else (False, []));
          p = (if phone_number u \<noteq> [] then sendSmsAlert tr a (phone_number u) message else (False, []));
          r = send_each tr a message us (anySent \<or> fst e \<or> fst p)
      in (fst r, snd e @ snd p @ snd r))"

text \<open>
  \<^verbatim>\<open>Alert::sendAlert\<close>. \<open>now\<close> is the clock read for the pruning of the window and
  \<open>sentAt\<close> the later read that is recorded after a successful delivery.
\<close>

definition sendAlert ::
  "transport \<Rightarrow> string \<Rightarrow> database \<Rightarrow> int \<Rightarrow> int \<Rightarrow> string \<Rightarrow> alert \<Rightarrow> bool \<times> alert \<times> effect list" where
  "sendAlert tr frequency db now sentAt message a =
     (if \<not> m_snsClient a \<and> \<not> m_sesv2Client a then (False, a, [])
      else if \<not> m_database_set a then (False, a, [])
      else
        (let userSettings = getAllUserSettings db in
         if userSettings = [] then (False, a, [])
         else if \<not> list_ex (\<lambda>u. user_email u \<noteq> [] \<or> phone_number u \<noteq> []) userSettings
         then (False, a, [])
         else
           (let freq0 = QString_toInt frequency;
                freq = (if freq0 \<le> 0 then 10 else freq0);
                oneHourAgo = now - 3600000;
                a1 = a\<lparr>m_alertTimestamps := filter (\<lambda>ts. \<not> ts < oneHourAgo) (m_alertTimestamps a)\<rparr>
            in if int (length (m_alertTimestamps a1)) < freq then
                 (let r = send_each tr a1 message userSettings False
                  in if fst r then
                       (True, a1\<lparr>m_alertTimestamps := m_alertTimestamps a1 @ [sentAt]\<rparr>, snd r)
                     else (False, a1, snd r))
               else (False, a1, []))))"

section \<open>Rollback: WindowsRollback and MacOSRollback\<close>

text \<open>
  The two classes have the same bodies up to the item class they act on. The outcome of
  the re-read in \<^verbatim>\<open>restorePreviousValue\<close> is only logged; which of the three log lines
  was written is returned as a \<open>restore_log\<close>. The null-pointer guards are left out: the
  model has no null item.
\<close>

datatype restore_log = AlreadyAtPrevious | Restored | RestoreFailed

definition restorePreviousValue :: "platform \<Rightarrow> item \<Rightarrow> item \<times> restore_log" where
  "restorePreviousValue pf key =
     (let prevValue = m_previousValue key;
          current = getCurrentValue pf key
      in if current = prevValue then (key, AlreadyAtPrevious)
         else
           (let key1 = key\<lparr>m_qsettings := QSettings_sync (QSettings_setValue prevValue (m_qsettings key))\<rparr>;
                confirmed = getCurrentValue pf key1
            in if confirmed = prevValue then (key1, Restored) else (key1, RestoreFailed)))"

definition rollbackIfNeeded :: "platform \<Rightarrow> item \<Rightarrow> database \<Rightarrow> item \<times> database \<times> restore_log option \<times> effect list" where
  "rollbackIfNeeded pf key db =
     (let prevValue = m_previousValue key;
          current = getCurrentValue pf key
      in if m_isCritical key \<and> current \<noteq> prevValue then
           (let key1 = setNewValue current key;
                r = restorePreviousValue pf key1;
                db1 = insertOrUpdateConfiguration (m_valueName key) (m_path key) prevValue True db
            in (fst r, db1, Some (snd r), [RollbackPerformed (m_valueName key)]))
         else (key, db, None, []))"

text \<open>\<^verbatim>\<open>cancelRollback\<close>: sets the flag and writes the stored new value back.\<close>

definition cancelRollback :: "platform \<Rightarrow> item \<Rightarrow> item \<times> effect list" where
  "cancelRollback pf key =
     (let key1 = setRollbackCancelled True key;
          newVal = m_newValue key1
      in if newVal \<noteq> [] then
           (let r = setValue pf newVal key1
            in ((fst r)\<lparr>m_qsettings := QSettings_sync (m_qsettings (fst r))\<rparr>, snd r))
         else (key1, []))"

section \<open>Monitoring: WindowsMonitoring and MacOSMonitoring\<close>

text \<open>
  One record for the members of both classes: the active flag, the \<^verbatim>\<open>QTimer\<close> (running
  or not, and its interval), the monitored items, the debounce table, the settings, the
  database and the alert object. \<open>emitted\<close> collects, in order, the signals emitted, the
  calls of \<^verbatim>\<open>sendAlert\<close>, the deliveries attempted and the one-shot timers armed.
\<close>

record monitoring =
  m_monitoringActive :: bool
  timer_running :: bool
  timer_interval :: int
  m_items :: "item list"
  m_lastAlertedValue :: "(string \<times> string) list"
  m_settings :: settings
  m_database :: database
  m_alert :: alert
  emitted :: "effect list"

text \<open>What the code reads from outside during a tick: the AWS transport and the clock.\<close>

record env =
  transport :: transport
  clock :: int

definition emit :: "effect list \<Rightarrow> monitoring \<Rightarrow> monitoring" where
  "emit fx m = m\<lparr>emitted := emitted m @ fx\<rparr>"

definition startMonitoring :: "monitoring \<Rightarrow> monitoring" where
  "startMonitoring m =
     (if \<not> m_monitoringActive m then
        emit [TimerStart 1000, StatusChanged ''Monitoring started'']
          (m\<lparr>m_monitoringActive := True, timer_running := True, timer_interval := 1000\<rparr>)
      else m)"

definition stopMonitoring :: "monitoring \<Rightarrow> monitoring" where
  "stopMonitoring m =
     (if m_monitoringActive m then
        emit [TimerStop, StatusChanged ''Monitoring stopped'']
          (m\<lparr>m_monitoringActive := False, timer_running := False\<rparr>)
      else m)"

text \<open>A call of \<^verbatim>\<open>m_alert.sendAlert(msg)\<close> from the monitoring object.\<close>

definition call_sendAlert :: "env \<Rightarrow> string \<Rightarrow> monitoring \<Rightarrow> monitoring" where
  "call_sendAlert e msg m =
     (let r = sendAlert (transport e) (m_notificationFrequency (m_settings m)) (m_database m)
                (clock e) (clock e) msg (m_alert m)
      in emit (SendAlert msg # snd (snd r)) (m\<lparr>m_alert := fst (snd r)\<rparr>))"

text \<open>
  The slots connected to \<^verbatim>\<open>rollbackPerformed\<close> in the two constructors, run for each
  emission: Windows only re-emits it as \<^verbatim>\<open>criticalChangeDetected\<close>, macOS also sends an alert.
\<close>

fun Windows_onRollbackPerformed :: "effect list \<Rightarrow> monitoring \<Rightarrow> monitoring" where
  "Windows_onRollbackPerformed [] m = m"
| "Windows_onRollbackPerformed (RollbackPerformed valueName # fx) m =
     Windows_onRollbackPerformed fx
       (emit [RollbackPerformed valueName,
              CriticalChangeDetected (''[CRITICAL] Rollback performed for key: '' @ valueName)] m)"
| "Windows_onRollbackPerformed (x # fx) m = Windows_onRollbackPerformed fx (emit [x] m)"

fun MacOS_onRollbackPerformed :: "env \<Rightarrow> effect list \<Rightarrow> monitoring \<Rightarrow> monitoring" where
  "MacOS_onRollbackPerformed e [] m = m"
| "MacOS_onRollbackPerformed e (RollbackPerformed valueName # fx) m =
     MacOS_onRollbackPerformed e fx
       (call_sendAlert e (''[CRITICAL] Revert performed for file: '' @ valueName)
          (emit [RollbackPerformed valueName,
                 CriticalChangeDetected (''[CRITICAL] Revert performed for file: '' @ valueName)] m))"
| "MacOS_onRollbackPerformed e (x # fx) m = MacOS_onRollbackPerformed e fx (emit [x] m)"

text \<open>
  The body of the loop of \<^verbatim>\<open>WindowsMonitoring::checkForChanges\<close> for one key. Each
  \<^verbatim>\<open>continue\<close> is a branch that returns. The clock is read once per tick.
\<close>

definition WindowsMonitoring_checkKey :: "env \<Rightarrow> item \<Rightarrow> monitoring \<Rightarrow> item \<times> monitoring" where
  "WindowsMonitoring_checkKey e key m =
     (let currentValue = RegistryKey_getCurrentValue key;
          prevValue = m_value key
      in if currentValue \<noteq> prevValue then
           (let m1 = m\<lparr>m_database :=
                        insertChange (m_valueName key) prevValue currentValue False
                          insertChange_default_critical (m_database m)\<rparr>
            in if QHash_value (m_lastAlertedValue m1) (m_valueName key) = currentValue then
                 (let r = RegistryKey_setValue currentValue key in (fst r, emit (snd r) m1))
               else
                 (let m2 = m1\<lparr>m_lastAlertedValue :=
                                AList.update (m_valueName key) currentValue (m_lastAlertedValue m1)\<rparr>
                  in if m_isCritical key then
                       (let key1 = setRollbackCancelled False key;
                            key2 = setNewValue currentValue key1;
                            rb = rollbackIfNeeded Windows key2 (m_database m2);
                            key3 = fst rb;
                            m3 = Windows_onRollbackPerformed (snd (snd (snd rb)))
                                   (m2\<lparr>m_database := fst (snd rb)\<rparr>);
                            pendingMsg = ''[CRITICAL ALERT] Key: '' @ m_valueName key3 @
                                         '' changed to '' @ currentValue;
                            m4 = emit [SingleShot 10000 (m_valueName key3) pendingMsg] m3;
                            m5 = m4\<lparr>m_database :=
                                     insertOrUpdateConfiguration (m_valueName key3) (m_path key3)
                                       currentValue (m_isCritical key3) (m_database m4)\<rparr>;
                            r = RegistryKey_setValue currentValue key3
                        in (fst r, emit (snd r) m5))
                     else
                       (let key1 = incrementChangeCount key;
                            threshold = QString_toInt (m_nonCriticalAlertThreshold (m_settings m2));
                            count = m_changeCount key1
                        in if threshold > 0 \<and> count \<ge> threshold then
                             (let msg = ''[ALERT] Non-critical threshold reached for '' @
                                        m_valueName key1 @ '': '' @ currentValue;
                                  key2 = resetChangeCount key1;
                                  m3 = (if \<not> equal_ci (m_notificationFrequency (m_settings m2)) ''Never''
                                        then call_sendAlert e msg m2 else m2);
                                  m4 = m3\<lparr>m_database :=
                                           insertOrUpdateConfiguration (m_valueName key2) (m_path key2)
                                             currentValue (m_isCritical key2) (m_database m3)\<rparr>;
                                  r = RegistryKey_setValue currentValue key2
                              in (fst r, emit (snd r) m4))
                           else
                             (let m3 = m2\<lparr>m_database :=
                                           insertOrUpdateConfiguration (m_valueName key1) (m_path key1)
                                             currentValue False (m_database m2)\<rparr>;
                                  r = RegistryKey_setValue currentValue key1
                              in (fst r, emit (snd r) m3)))))
         else (key, m))"

text \<open>
  The callback armed by \<^verbatim>\<open>QTimer::singleShot(10000, ...)\<close> for a critical key, run when
  the timer fires on the key as it is then.
\<close>

definition WindowsMonitoring_delayedAlert :: "env \<Rightarrow> item \<Rightarrow> string \<Rightarrow> monitoring \<Rightarrow> monitoring" where
  "WindowsMonitoring_delayedAlert e key pendingMsg m =
     (if \<not> m_rollbackCancelled key then
        (if equal_ci (m_notificationFrequency (m_settings m)) ''Never'' then m
         else call_sendAlert e pendingMsg m)
      else m)"

text \<open>The body of the loop of \<^verbatim>\<open>MacOSMonitoring::checkForChanges\<close> for one plist entry.\<close>

definition MacOSMonitoring_checkFile :: "env \<Rightarrow> item \<Rightarrow> monitoring \<Rightarrow> item \<times> monitoring" where
  "MacOSMonitoring_checkFile e plist m =
     (let currentValue = PlistFile_getCurrentValue plist;
          prevValue = m_value plist
      in if currentValue \<noteq> prevValue then
           (let m1 = m\<lparr>m_database :=
                        insertChange (m_valueName plist) prevValue currentValue False
                          insertChange_default_critical (m_database m)\<rparr>
            in if QHash_value (m_lastAlertedValue m1) (m_valueName plist) = currentValue then
                 (let r = PlistFile_setValue currentValue plist in (fst r, emit (snd r) m1))
               else
                 (let m2 = m1\<lparr>m_lastAlertedValue :=
                                AList.update (m_valueName plist) currentValue (m_lastAlertedValue m1)\<rparr>
                  in if m_isCritical plist then
                       (let plist1 = setRollbackCancelled False plist;
                            plist2 = setNewValue currentValue plist1;
                            rb = rollbackIfNeeded MacOS plist2 (m_database m2);
                            plist3 = fst rb;
                            m3 = MacOS_onRollbackPerformed e (snd (snd (snd rb)))
                                   (m2\<lparr>m_database := fst (snd rb)\<rparr>);
                            alertMessage = ''[CRITICAL ALERT] '' @ m_path plist3 @
                                           '' changed to '' @ currentValue;
                            m4 = call_sendAlert e alertMessage m3;
                            m5 = m4\<lparr>m_database :=
                                     insertOrUpdateConfiguration (m_valueName plist3) (m_path plist3)
                                       currentValue (m_isCritical plist3) (m_database m4)\<rparr>;
                            r = PlistFile_setValue currentValue plist3
                        in (fst r, emit (snd r) m5))
                     else
                       (let plist1 = incrementChangeCount plist;
                            threshold = QString_toInt (m_nonCriticalAlertThreshold (m_settings m2));
                            count = m_changeCount plist1
                        in if threshold > 0 \<and> count \<ge> threshold then
                             (let alertMessage = ''[ALERT] Threshold reached for '' @
                                                 m_path plist1 @ '': '' @ currentValue;
                                  plist2 = resetChangeCount plist1;
                                  m3 = call_sendAlert e alertMessage m2;
                                  m4 = m3\<lparr>m_database :=
                                           insertOrUpdateConfiguration (m_valueName plist2) (m_path plist2)
                                             currentValue (m_isCritical plist2) (m_database m3)\<rparr>;
                                  r = PlistFile_setValue currentValue plist2
                              in (fst r, emit (snd r) m4))
                           else
                             (let m3 = m2\<lparr>m_database :=
                                           insertOrUpdateConfiguration (m_valueName plist1) (m_path plist1)
                                             currentValue False (m_database m2)\<rparr>;
                                  r = PlistFile_setValue currentValue plist1
                              in (fst r, emit (snd r) m3)))))
         else (plist, m))"

text \<open>The loop over the items, each updated in place, and the two \<^verbatim>\<open>checkForChanges\<close>.\<close>

fun for_each_item ::
  "(item \<Rightarrow> monitoring \<Rightarrow> item \<times> monitoring) \<Rightarrow> item list \<Rightarrow> monitoring \<Rightarrow> item list \<times> monitoring" where
  "for_each_item body [] m = ([], m)"
| "for_each_item body (k # ks) m =
     (let r = body k m; rs = for_each_item body ks (snd r) in (fst r # fst rs, snd rs))"

definition WindowsMonitoring_checkForChanges :: "env \<Rightarrow> monitoring \<Rightarrow> monitoring" where
  "WindowsMonitoring_checkForChanges e m =
     (let r = for_each_item (WindowsMonitoring_checkKey e) (m_items m) m
      in (snd r)\<lparr>m_items := fst r\<rparr>)"

definition MacOSMonitoring_checkForChanges :: "env \<Rightarrow> monitoring \<Rightarrow> monitoring" where
  "MacOSMonitoring_checkForChanges e m =
     (let r = for_each_item (MacOSMonitoring_checkFile e) (m_items m) m
      in (snd r)\<lparr>m_items := fst r\<rparr>)"

section \<open>EncryptionUtils\<close>

text \<open>
  A \<^verbatim>\<open>QByteArray\<close> is a list of bytes, and a \<^verbatim>\<open>QString\<close> is the list of its UTF-16 code
  units.
\<close>

type_synonym byte = "8 word"

type_synonym qstring = "16 word list"

subsection \<open>QString to UTF-8 and back\<close>

text \<open>The tests of \<^verbatim>\<open>QChar\<close> on a code point, and the arithmetic of surrogate pairs.\<close>

definition isSurrogate :: "32 word \<Rightarrow> bool" where
  "isSurrogate ucs4 = (ucs4 - 0xd800 < 2048)"

definition isHighSurrogate :: "32 word \<Rightarrow> bool" where
  "isHighSurrogate ucs4 = (ucs4 AND 0xfffffc00 = 0xd800)"

definition isLowSurrogate :: "32 word \<Rightarrow> bool" where
  "isLowSurrogate ucs4 = (ucs4 AND 0xfffffc00 = 0xdc00)"

definition surrogateToUcs4 :: "16 word \<Rightarrow> 16 word \<Rightarrow> 32 word" where
  "surrogateToUcs4 high low = push_bit 10 (ucast high) + ucast low - 0x35fdc00"

definition highSurrogate :: "32 word \<Rightarrow> 16 word" where
  "highSurrogate ucs4 = ucast (drop_bit 10 ucs4 + 0xd7c0)"

definition lowSurrogate :: "32 word \<Rightarrow> 16 word" where
  "lowSurrogate ucs4 = ucast (ucs4 mod 0x400 + 0xdc00)"

text \<open>
  \<^verbatim>\<open>QString::toUtf8\<close>: one byte for a code unit below U+0080, two below U+0800, three for any
  other code unit that is not a surrogate, and four for a high surrogate followed by a low
  one. A surrogate that is not part of such a pair is an encoding error and becomes the
  byte \<^verbatim>\<open>?\<close>.
\<close>

fun toUtf8 :: "qstring \<Rightarrow> byte list" where
  "toUtf8 [] = []"
| "toUtf8 (u # src) =
     (if u < 0x80 then ucast u # toUtf8 src
      else if u < 0x800 then
        [0xc0 OR ucast (drop_bit 6 u), 0x80 OR (ucast u AND 0x3f)] @ toUtf8 src
      else if \<not> isSurrogate (ucast u) then
        [0xe0 OR ucast (drop_bit 12 u), 0x80 OR (ucast (drop_bit 6 u) AND 0x3f),
         0x80 OR (ucast u AND 0x3f)] @ toUtf8 src
      else
        (case src of
           [] \<Rightarrow> [0x3f]
         | low # rest \<Rightarrow>
             if isHighSurrogate (ucast u) \<and> isLowSurrogate (ucast low) then
               (let ucs4 = surrogateToUcs4 u low
                in [0xf0 OR (ucast (drop_bit 18 ucs4) AND 0xf),
                    0x80 OR (ucast (drop_bit 12 ucs4) AND 0x3f),
                    0x80 OR (ucast (drop_bit 6 (ucast ucs4 :: 16 word)) AND 0x3f),
                    0x80 OR (ucast ucs4 AND 0x3f)] @ toUtf8 rest)
             else 0x3f # toUtf8 src))"

text \<open>
  The decoding of one sequence, given its first byte \<open>b\<close> and the bytes after it: the code
  units it stands for and the number of bytes it takes, or \<open>None\<close> for a decoding error (a
  stray continuation byte, a first byte that can only start an overlong sequence or a value
  above U+10FFFF, a truncated sequence, a byte that is not a continuation byte where one is
  due, an overlong form, an encoded surrogate).
\<close>

definition isContinuationByte :: "byte \<Rightarrow> bool" where
  "isContinuationByte b = (b AND 0xc0 = 0x80)"

definition continuation :: "32 word \<Rightarrow> byte \<Rightarrow> 32 word" where
  "continuation uc b = push_bit 6 uc OR (ucast b AND 0x3f)"

definition fromUtf8_char :: "byte \<Rightarrow> byte list \<Rightarrow> (qstring \<times> nat) option" where
  "fromUtf8_char b src =
     (if b < 0x80 then Some ([ucast b], 1)
      else if b \<le> 0xc1 then None
      else if 0xf5 \<le> b then None
      else
        (let charsNeeded = (if b < 0xe0 then 2 else if b < 0xf0 then 3 else 4) :: nat;
             min_uc = (if b < 0xe0 then 0x80 else if b < 0xf0 then 0x800 else 0x10000) :: 32 word;
             uc0 = (if b < 0xe0 then ucast b AND 0x1f else if b < 0xf0 then ucast b AND 0x0f
                    else ucast b AND 0x07) :: 32 word
         in if length src < charsNeeded - 1 then None
            else if \<not> list_all isContinuationByte (take (charsNeeded - 1) src) then None
            else
              (let uc = foldl continuation uc0 (take (charsNeeded - 1) src)
               in if uc < min_uc then None
                  else if isSurrogate uc \<or> 0x10ffff < uc then None
                  else if 0x10000 \<le> uc then Some ([highSurrogate uc, lowSurrogate uc], charsNeeded)
                  else Some ([ucast uc], charsNeeded))))"

text \<open>
  \<^verbatim>\<open>QString::fromUtf8\<close>: a byte-order mark at the very start of the array is skipped; then
  the array is decoded sequence by sequence, and a byte at which decoding fails becomes
  U+FFFD, decoding going on with the byte after it.
\<close>

fun convertToUnicode :: "byte list \<Rightarrow> qstring" where
  "convertToUnicode [] = []"
| "convertToUnicode (b # src) =
     (case fromUtf8_char b src of
        None \<Rightarrow> 0xfffd # convertToUnicode src
      | Some r \<Rightarrow> fst r @ convertToUnicode (drop (snd r - 1) src))"

definition fromUtf8 :: "byte list \<Rightarrow> qstring" where
  "fromUtf8 ba =
     (if 3 \<le> length ba \<and> take 3 ba = [0xef, 0xbb, 0xbf] then convertToUnicode (drop 3 ba)
      else convertToUnicode ba)"

subsection \<open>Base64 as QByteArray implements it\<close>

text \<open>
  \<^verbatim>\<open>QByteArray::toBase64\<close> writes four characters of the standard alphabet for every three
  bytes and pads with \<^verbatim>\<open>=\<close>. \<^verbatim>\<open>QByteArray::fromBase64\<close> shifts the six bits of every
  character of the alphabet into a buffer, emits a byte whenever eight bits are there, and
  skips every other character.
\<close>

definition b64_char :: "nat \<Rightarrow> byte" where
  "b64_char i =
     (if i < 26 then of_nat (65 + i)
      else if i < 52 then of_nat (71 + i)
      else if i < 62 then of_nat (i - 4)
      else if i = 62 then 43
      else 47)"

definition b64_index :: "byte \<Rightarrow> nat option" where
  "b64_index ch =
     (let c = unat ch
      in if 65 \<le> c \<and> c \<le> 90 then Some (c - 65)
         else if 97 \<le> c \<and> c \<le> 122 then Some (c - 97 + 26)
         else if 48 \<le> c \<and> c \<le> 57 then Some (c - 48 + 52)
         else if c = 43 then Some 62
         else if c = 47 then Some 63
         else None)"

fun toBase64 :: "byte list \<Rightarrow> byte list" where
  "toBase64 [] = []"
| "toBase64 [a] =
     (let x = unat a in [b64_char (x div 4), b64_char (x mod 4 * 16), 61, 61])"
| "toBase64 [a, b] =
     (let x = unat a; y = unat b
      in [b64_char (x div 4), b64_char (x mod 4 * 16 + y div 16), b64_char (y mod 16 * 4), 61])"
| "toBase64 (a # b # c # r) =
     (let x = unat a; y = unat b; z = unat c
      in [b64_char (x div 4), b64_char (x mod 4 * 16 + y div 16),
          b64_char (y mod 16 * 4 + z div 64), b64_char (z mod 64)] @ toBase64 r)"

fun b64_decode :: "nat \<Rightarrow> nat \<Rightarrow> byte list \<Rightarrow> byte list" where
  "b64_decode buf nbits [] = []"
| "b64_decode buf nbits (ch # cs) =
     (case b64_index ch of
        None \<Rightarrow> b64_decode buf nbits cs
      | Some d \<Rightarrow>
          (let buf' = buf * 64 + d; nbits' = nbits + 6
           in if 8 \<le> nbits' then
                of_nat (buf' div 2 ^ (nbits' - 8))
                  # b64_decode (buf' mod 2 ^ (nbits' - 8)) (nbits' - 8) cs
              else b64_decode buf' nbits' cs))"

definition fromBase64 :: "byte list \<Rightarrow> byte list" where
  "fromBase64 cs = b64_decode 0 0 cs"

subsection \<open>AES-256\<close>

text \<open>
  OpenSSL's \<^verbatim>\<open>EVP_aes_256_cbc\<close> is outside the repository. Its block cipher is AES with a
  32-byte key as FIPS-197 defines it, written out here.
\<close>

text \<open>The S-box and its inverse, as tables indexed by the byte.\<close>

definition sbox_table :: "byte list" where
  "sbox_table =
    [0x63, 0x7c, 0x77, 0x7b, 0xf2, 0x6b, 0x6f, 0xc5, 0x30, 0x01, 0x67, 0x2b, 0xfe, 0xd7, 0xab, 0x76,
     0xca, 0x82, 0xc9, 0x7d, 0xfa, 0x59, 0x47, 0xf0, 0xad, 0xd4, 0xa2, 0xaf, 0x9c, 0xa4, 0x72, 0xc0,
     0xb7, 0xfd, 0x93, 0x26, 0x36, 0x3f, 0xf7, 0xcc, 0x34, 0xa5, 0xe5, 0xf1, 0x71, 0xd8, 0x31, 0x15,
     0x04, 0xc7, 0x23, 0xc3, 0x18, 0x96, 0x05, 0x9a, 0x07, 0x12, 0x80, 0xe2, 0xeb, 0x27, 0xb2, 0x75,
     0x09, 0x83, 0x2c, 0x1a, 0x1b, 0x6e, 0x5a, 0xa0, 0x52, 0x3b, 0xd6, 0xb3, 0x29, 0xe3, 0x2f, 0x84,
     0x53, 0xd1, 0x00, 0xed, 0x20, 0xfc, 0xb1, 0x5b, 0x6a, 0xcb, 0xbe, 0x39, 0x4a, 0x4c, 0x58, 0xcf,
     0xd0, 0xef, 0xaa, 0xfb, 0x43, 0x4d, 0x33, 0x85, 0x45, 0xf9, 0x02, 0x7f, 0x50, 0x3c, 0x9f, 0xa8,
     0x51, 0xa3, 0x40, 0x8f, 0x92, 0x9d, 0x38, 0xf5, 0xbc, 0xb6, 0xda, 0x21, 0x10, 0xff, 0xf3, 0xd2,
     0xcd, 0x0c, 0x13, 0xec, 0x5f, 0x97, 0x44, 0x17, 0xc4, 0xa7, 0x7e, 0x3d, 0x64, 0x5d, 0x19, 0x73,
     0x60, 0x81, 0x4f, 0xdc, 0x22, 0x2a, 0x90, 0x88, 0x46, 0xee, 0xb8, 0x14, 0xde, 0x5e, 0x0b, 0xdb,
     0xe0, 0x32, 0x3a, 0x0a, 0x49, 0x06, 0x24, 0x5c, 0xc2, 0xd3, 0xac, 0x62, 0x91, 0x95, 0xe4, 0x79,
     0xe7, 0xc8, 0x37, 0x6d, 0x8d, 0xd5, 0x4e, 0xa9, 0x6c, 0x56, 0xf4, 0xea, 0x65, 0x7a, 0xae, 0x08,
     0xba, 0x78, 0x25, 0x2e, 0x1c, 0xa6, 0xb4, 0xc6, 0xe8, 0xdd, 0x74, 0x1f, 0x4b, 0xbd, 0x8b, 0x8a,
     0x70, 0x3e, 0xb5, 0x66, 0x48, 0x03, 0xf6, 0x0e, 0x61, 0x35, 0x57, 0xb9, 0x86, 0xc1, 0x1d, 0x9e,
     0xe1, 0xf8, 0x98, 0x11, 0x69, 0xd9, 0x8e, 0x94, 0x9b, 0x1e, 0x87, 0xe9, 0xce, 0x55, 0x28, 0xdf,
     0x8c, 0xa1, 0x89, 0x0d, 0xbf, 0xe6, 0x42, 0x68, 0x41, 0x99, 0x2d, 0x0f, 0xb0, 0x54, 0xbb, 0x16]"

definition inv_sbox_table :: "byte list" where
  "inv_sbox_table =
    [0x52, 0x09, 0x6a, 0xd5, 0x30, 0x36, 0xa5, 0x38, 0xbf, 0x40, 0xa3, 0x9e, 0x81, 0xf3, 0xd7, 0xfb,
     0x7c, 0xe3, 0x39, 0x82, 0x9b, 0x2f, 0xff, 0x87, 0x34, 0x8e, 0x43, 0x44, 0xc4, 0xde, 0xe9, 0xcb,
     0x54, 0x7b, 0x94, 0x32, 0xa6, 0xc2, 0x23, 0x3d, 0xee, 0x4c, 0x95, 0x0b, 0x42, 0xfa, 0xc3, 0x4e,
     0x08, 0x2e, 0xa1, 0x66, 0x28, 0xd9, 0x24, 0xb2, 0x76, 0x5b, 0xa2, 0x49, 0x6d, 0x8b, 0xd1, 0x25,
     0x72, 0xf8, 0xf6, 0x64, 0x86, 0x68, 0x98, 0x16, 0xd4, 0xa4, 0x5c, 0xcc, 0x5d, 0x65, 0xb6, 0x92,
     0x6c, 0x70, 0x48, 0x50, 0xfd, 0xed, 0xb9, 0xda, 0x5e, 0x15, 0x46, 0x57, 0xa7, 0x8d, 0x9d, 0x84,
     0x90, 0xd8, 0xab, 0x00, 0x8c, 0xbc, 0xd3, 0x0a, 0xf7, 0xe4, 0x58, 0x05, 0xb8, 0xb3, 0x45, 0x06,
     0xd0, 0x2c, 0x1e, 0x8f, 0xca, 0x3f, 0x0f, 0x02, 0xc1, 0xaf, 0xbd, 0x03, 0x01, 0x13, 0x8a, 0x6b,
     0x3a, 0x91, 0x11, 0x41, 0x4f, 0x67, 0xdc, 0xea, 0x97, 0xf2, 0xcf, 0xce, 0xf0, 0xb4, 0xe6, 0x73,
     0x96, 0xac, 0x74, 0x22, 0xe7, 0xad, 0x35, 0x85, 0xe2, 0xf9, 0x37, 0xe8, 0x1c, 0x75, 0xdf, 0x6e,
     0x47, 0xf1, 0x1a, 0x71, 0x1d, 0x29, 0xc5, 0x89, 0x6f, 0xb7, 0x62, 0x0e, 0xaa, 0x18, 0xbe, 0x1b,
     0xfc, 0x56, 0x3e, 0x4b, 0xc6, 0xd2, 0x79, 0x20, 0x9a, 0xdb, 0xc0, 0xfe, 0x78, 0xcd, 0x5a, 0xf4,
     0x1f, 0xdd, 0xa8, 0x33, 0x88, 0x07, 0xc7, 0x31, 0xb1, 0x12, 0x10, 0x59, 0x27, 0x80, 0xec, 0x5f,
     0x60, 0x51, 0x7f, 0xa9, 0x19, 0xb5, 0x4a, 0x0d, 0x2d, 0xe5, 0x7a, 0x9f, 0x93, 0xc9, 0x9c, 0xef,
     0xa0, 0xe0, 0x3b, 0x4d, 0xae, 0x2a, 0xf5, 0xb0, 0xc8, 0xeb, 0xbb, 0x3c, 0x83, 0x53, 0x99, 0x61,
     0x17, 0x2b, 0x04, 0x7e, 0xba, 0x77, 0xd6, 0x26, 0xe1, 0x69, 0x14, 0x63, 0x55, 0x21, 0x0c, 0x7d]"

definition sbox :: "byte \<Rightarrow> byte" where
  "sbox x = sbox_table ! unat x"

definition inv_sbox :: "byte \<Rightarrow> byte" where
  "inv_sbox x = inv_sbox_table ! unat x"

text \<open>Multiplication in the field of 256 elements by the constants of MixColumns and InvMixColumns.\<close>

definition xtime :: "byte \<Rightarrow> byte" where
  "xtime a = (if bit a 7 then push_bit 1 a XOR 0x1b else push_bit 1 a)"

definition mul3 :: "byte \<Rightarrow> byte" where "mul3 a = xtime a XOR a"
definition mul9 :: "byte \<Rightarrow> byte" where "mul9 a = xtime (xtime (xtime a)) XOR a"
definition mul11 :: "byte \<Rightarrow> byte" where "mul11 a = xtime (xtime (xtime a)) XOR xtime a XOR a"
definition mul13 :: "byte \<Rightarrow> byte" where "mul13 a = xtime (xtime (xtime a)) XOR xtime (xtime a) XOR a"
definition mul14 :: "byte \<Rightarrow> byte" where "mul14 a = xtime (xtime (xtime a)) XOR xtime (xtime a) XOR xtime a"

text \<open>The state is the list of its 16 bytes, column by column.\<close>

definition sub_bytes :: "byte list \<Rightarrow> byte list" where
  "sub_bytes s = map sbox s"

definition inv_sub_bytes :: "byte list \<Rightarrow> byte list" where
  "inv_sub_bytes s = map inv_sbox s"

definition shift_rows :: "byte list \<Rightarrow> byte list" where
  "shift_rows s = map (\<lambda>i. s ! i) [0, 5, 10, 15, 4, 9, 14, 3, 8, 13, 2, 7, 12, 1, 6, 11]"

definition inv_shift_rows :: "byte list \<Rightarrow> byte list" where
  "inv_shift_rows s = map (\<lambda>i. s ! i) [0, 13, 10, 7, 4, 1, 14, 11, 8, 5, 2, 15, 12, 9, 6, 3]"

definition mix_column :: "byte \<Rightarrow> byte \<Rightarrow> byte \<Rightarrow> byte \<Rightarrow> byte list" where
  "mix_column a0 a1 a2 a3 =
     [xtime a0 XOR mul3 a1 XOR a2 XOR a3,
      a0 XOR xtime a1 XOR mul3 a2 XOR a3,
      a0 XOR a1 XOR xtime a2 XOR mul3 a3,
      mul3 a0 XOR a1 XOR a2 XOR xtime a3]"

definition mix_columns :: "byte list \<Rightarrow> byte list" where
  "mix_columns s =
     mix_column (s ! 0) (s ! 1) (s ! 2) (s ! 3) @ mix_column (s ! 4) (s ! 5) (s ! 6) (s ! 7) @
     mix_column (s ! 8) (s ! 9) (s ! 10) (s ! 11) @ mix_column (s ! 12) (s ! 13) (s ! 14) (s ! 15)"

definition inv_mix_column :: "byte \<Rightarrow> byte \<Rightarrow> byte \<Rightarrow> byte \<Rightarrow> byte list" where
  "inv_mix_column a0 a1 a2 a3 =
     [mul14 a0 XOR mul11 a1 XOR mul13 a2 XOR mul9 a3,
      mul9 a0 XOR mul14 a1 XOR mul11 a2 XOR mul13 a3,
      mul13 a0 XOR mul9 a1 XOR mul14 a2 XOR mul11 a3,
      mul11 a0 XOR mul13 a1 XOR mul9 a2 XOR mul14 a3]"

definition inv_mix_columns :: "byte list \<Rightarrow> byte list" where
  "inv_mix_columns s =
     inv_mix_column (s ! 0) (s ! 1) (s ! 2) (s ! 3) @ inv_mix_column (s ! 4) (s ! 5) (s ! 6) (s ! 7) @
     inv_mix_column (s ! 8) (s ! 9) (s ! 10) (s ! 11) @
     inv_mix_column (s ! 12) (s ! 13) (s ! 14) (s ! 15)"

definition add_round_key :: "byte list \<Rightarrow> byte list \<Rightarrow> byte list" where
  "add_round_key s k = map (\<lambda>i. s ! i XOR k ! i) [0..<16]"

text \<open>The key expansion for a 32-byte key: 60 words, 15 round keys.\<close>

definition rot_word :: "byte list \<Rightarrow> byte list" where
  "rot_word w = [w ! 1, w ! 2, w ! 3, w ! 0]"

definition rcon :: "nat \<Rightarrow> byte" where
  "rcon i = [0x01, 0x02, 0x04, 0x08, 0x10, 0x20, 0x40] ! (i - 1)"

definition xor_bytes :: "byte list \<Rightarrow> byte list \<Rightarrow> byte list" where
  "xor_bytes a b = map2 (XOR) a b"

definition next_word :: "nat \<Rightarrow> byte list list \<Rightarrow> byte list" where
  "next_word i w =
     (let t = w ! (i - 1);
          t' = (if i mod 8 = 0 then xor_bytes (map sbox (rot_word t)) [rcon (i div 8), 0, 0, 0]
                else if i mod 8 = 4 then map sbox t
                else t)
      in xor_bytes (w ! (i - 8)) t')"

fun expand_from :: "nat \<Rightarrow> nat \<Rightarrow> byte list list \<Rightarrow> byte list list" where
  "expand_from 0 i w = w"
| "expand_from (Suc n) i w = expand_from n (Suc i) (w @ [next_word i w])"

definition key_expansion :: "byte list \<Rightarrow> byte list" where
  "key_expansion key = concat (expand_from 52 8 (map (\<lambda>j. take 4 (drop (4 * j) key)) [0..<8]))"

definition round_key :: "byte list \<Rightarrow> nat \<Rightarrow> byte list" where
  "round_key ek r = take 16 (drop (16 * r) ek)"

text \<open>The cipher and the inverse cipher: 14 rounds, the last one without MixColumns.\<close>

fun enc_rounds :: "byte list \<Rightarrow> nat list \<Rightarrow> byte list \<Rightarrow> byte list" where
  "enc_rounds ek [] s = s"
| "enc_rounds ek (r # rs) s =
     enc_rounds ek rs (add_round_key (mix_columns (shift_rows (sub_bytes s))) (round_key ek r))"

fun dec_rounds :: "byte list \<Rightarrow> nat list \<Rightarrow> byte list \<Rightarrow> byte list" where
  "dec_rounds ek [] s = s"
| "dec_rounds ek (r # rs) s =
     dec_rounds ek rs (inv_mix_columns (add_round_key (inv_sub_bytes (inv_shift_rows s)) (round_key ek r)))"

definition aes_cipher :: "byte list \<Rightarrow> byte list \<Rightarrow> byte list" where
  "aes_cipher ek s =
     add_round_key (shift_rows (sub_bytes (enc_rounds ek [1..<14] (add_round_key s (round_key ek 0)))))
       (round_key ek 14)"

definition aes_inv_cipher :: "byte list \<Rightarrow> byte list \<Rightarrow> byte list" where
  "aes_inv_cipher ek s =
     add_round_key
       (inv_sub_bytes (inv_shift_rows (dec_rounds ek (rev [1..<14]) (add_round_key s (round_key ek 14)))))
       (round_key ek 0)"

definition aes256_encrypt_block :: "byte list \<Rightarrow> byte list \<Rightarrow> byte list" where
  "aes256_encrypt_block key b = aes_cipher (key_expansion key) b"

definition aes256_decrypt_block :: "byte list \<Rightarrow> byte list \<Rightarrow> byte list" where
  "aes256_decrypt_block key b = aes_inv_cipher (key_expansion key) b"

subsection \<open>CBC mode with PKCS#7 padding\<close>

text \<open>
  \<^verbatim>\<open>EVP_EncryptUpdate\<close> and \<^verbatim>\<open>EVP_EncryptFinal_ex\<close> encrypt the input followed by 1 to 16
  padding bytes, each holding the number of padding bytes. \<^verbatim>\<open>EVP_DecryptFinal_ex\<close> fails
  unless the last byte \<open>n\<close> of the decrypted data is between 1 and 16 and the last \<open>n\<close>
  bytes all equal it; this is the only check on the decrypted data.
\<close>

definition pkcs7_pad :: "byte list \<Rightarrow> byte list" where
  "pkcs7_pad m = (let n = 16 - length m mod 16 in m @ replicate n (of_nat n))"

definition pkcs7_unpad :: "byte list \<Rightarrow> byte list option" where
  "pkcs7_unpad p =
     (if p = [] then None
      else
        (let n = unat (last p)
         in if n = 0 \<or> 16 < n then None
            else if list_all (\<lambda>b. b = last p) (drop (length p - n) p)
                 then Some (take (length p - n) p)
                 else None))"

fun cbc_encrypt :: "byte list \<Rightarrow> byte list \<Rightarrow> byte list \<Rightarrow> byte list" where
  "cbc_encrypt key prev m =
     (if length m < 16 then []
      else
        (let c = aes256_encrypt_block key (xor_bytes (take 16 m) prev)
         in c @ cbc_encrypt key c (drop 16 m)))"

fun cbc_decrypt :: "byte list \<Rightarrow> byte list \<Rightarrow> byte list \<Rightarrow> byte list" where
  "cbc_decrypt key prev c =
     (if length c < 16 then []
      else xor_bytes (aes256_decrypt_block key (take 16 c)) prev
             @ cbc_decrypt key (take 16 c) (drop 16 c))"

text \<open>
  The static members of \<^verbatim>\<open>EncryptionUtils\<close>. \<^verbatim>\<open>loadEncryptionKeys\<close> is given the decoded
  key and vector of the key file and keeps the previous material when a length is wrong.
  \<^verbatim>\<open>encrypt\<close> and \<^verbatim>\<open>decrypt\<close> take the key material in effect after their call of
  \<^verbatim>\<open>maybeReloadKeys\<close>; a failure returns the empty array or string.
\<close>

record key_state =
  encryptionKey :: "byte list"
  encryptionIv :: "byte list"

definition loadEncryptionKeys :: "byte list \<Rightarrow> byte list \<Rightarrow> key_state \<Rightarrow> key_state" where
  "loadEncryptionKeys newKey newIv ks =
     (if length newKey \<noteq> 32 then ks
      else if length newIv \<noteq> 16 then ks
      else \<lparr>encryptionKey = newKey, encryptionIv = newIv\<rparr>)"

definition encrypt :: "key_state \<Rightarrow> qstring \<Rightarrow> byte list" where
  "encrypt ks dat =
     (if dat = [] then []
      else if encryptionKey ks = [] \<or> encryptionIv ks = [] then []
      else toBase64 (cbc_encrypt (encryptionKey ks) (encryptionIv ks) (pkcs7_pad (toUtf8 dat))))"

definition decrypt :: "key_state \<Rightarrow> byte list \<Rightarrow> qstring" where
  "decrypt ks encryptedData =
     (if encryptedData = [] then []
      else if encryptionKey ks = [] \<or> encryptionIv ks = [] then []
      else
        (let cipher = fromBase64 encryptedData
         in if cipher = [] \<or> length cipher mod 16 \<noteq> 0 then []
            else (case pkcs7_unpad (cbc_decrypt (encryptionKey ks) (encryptionIv ks) cipher) of
                    None \<Rightarrow> []
                  | Some out \<Rightarrow> fromUtf8 out)))"

definition valid_keys :: "key_state \<Rightarrow> bool" where
  "valid_keys ks = (length (encryptionKey ks) = 32 \<and> length (encryptionIv ks) = 16)"

section \<open>Notions used in the statements\<close>

text \<open>
  The row that a tick hands to \<^verbatim>\<open>insertChange\<close> for an item whose observed value differs
  from the cached one: \<^verbatim>\<open>insertChange(name, prevValue, currentValue, false)\<close>.
\<close>

definition logged_change :: "item \<Rightarrow> string \<Rightarrow> change_row" where
  "logged_change k observed =
     \<lparr>config_name = m_valueName k, old_value = m_value k, new_value = observed,
      acknowledged = False, critical = insertChange_default_critical\<rparr>"

fun is_SendAlert :: "effect \<Rightarrow> bool" where
  "is_SendAlert (SendAlert msg) = True"
| "is_SendAlert x = False"

fun is_RollbackPerformed :: "effect \<Rightarrow> bool" where
  "is_RollbackPerformed (RollbackPerformed valueName) = True"
| "is_RollbackPerformed x = False"

fun is_delivered :: "effect \<Rightarrow> bool" where
  "is_delivered (Delivery c a msg ok) = ok"
| "is_delivered x = False"

text \<open>The non-critical threshold test of a tick, on the counter after its increment.\<close>

definition threshold_reached :: "monitoring \<Rightarrow> item \<Rightarrow> bool" where
  "threshold_reached m k =
     (0 < QString_toInt (m_nonCriticalAlertThreshold (m_settings m))
      \<and> QString_toInt (m_nonCriticalAlertThreshold (m_settings m)) \<le> m_changeCount k + 1)"

text \<open>The timestamps that \<^verbatim>\<open>sendAlert\<close> keeps when it prunes the window at time \<open>n\<close>.\<close>

definition within_hour :: "int \<Rightarrow> int list \<Rightarrow> int list" where
  "within_hour n ts = filter (\<lambda>t. \<not> t < n - 3600000) ts"

text \<open>
  The transport accepts the message for a contact: the contact has an e-mail address, the
  SES client exists and the transport delivers to that address, or the same with the phone
  number and the SNS client.
\<close>

definition accepts :: "transport \<Rightarrow> alert \<Rightarrow> string \<Rightarrow> user_row \<Rightarrow> bool" where
  "accepts tr a msg u =
     ((user_email u \<noteq> [] \<and> m_sesv2Client a \<and> tr Email (user_email u) msg)
      \<or> (phone_number u \<noteq> [] \<and> m_snsClient a \<and> tr Sms (phone_number u) msg))"

text \<open>
  An alert object and a database on which a delivery attempt succeeds: the database handle
  exists and the transport accepts the message for at least one contact of the database.
\<close>

definition deliverable :: "transport \<Rightarrow> alert \<Rightarrow> database \<Rightarrow> string \<Rightarrow> bool" where
  "deliverable tr a db msg =
     (m_database_set a \<and> list_ex (accepts tr a msg) (getAllUserSettings db))"

text \<open>A delivery record tells what the transport answered.\<close>

fun reports :: "transport \<Rightarrow> effect \<Rightarrow> bool" where
  "reports tr (Delivery c addr msg ok) = (ok = tr c addr msg)"
| "reports tr x = True"

text \<open>The number of alerts per hour that \<^verbatim>\<open>sendAlert\<close> allows for a frequency setting.\<close>

definition hourly_limit :: "string \<Rightarrow> int" where
  "hourly_limit f = (if QString_toInt f \<le> 0 then 10 else QString_toInt f)"

text \<open>
  A string is valid UTF-16 when each of its surrogates is part of a pair, a high surrogate
  followed by a low one.
\<close>

fun isValidUtf16 :: "qstring \<Rightarrow> bool" where
  "isValidUtf16 [] = True"
| "isValidUtf16 (u # src) =
     (if \<not> isSurrogate (ucast u) then isValidUtf16 src
      else (case src of
              [] \<Rightarrow> False
            | low # rest \<Rightarrow>
                isHighSurrogate (ucast u) \<and> isLowSurrogate (ucast low) \<and> isValidUtf16 rest))"

text \<open>A burst: \<^verbatim>\<open>sendAlert\<close> called once per pair of clock reads, on the same alert object.\<close>

fun burst ::
  "transport \<Rightarrow> string \<Rightarrow> database \<Rightarrow> string \<Rightarrow> (int \<times> int) list \<Rightarrow> alert \<Rightarrow> bool list \<times> alert" where
  "burst tr f db msg [] a = ([], a)"
| "burst tr f db msg (c # cs) a =
     (let r = sendAlert tr f db (fst c) (snd c) msg a;
          rs = burst tr f db msg cs (fst (snd r))
      in (fst r # fst rs, snd rs))"

section \<open>Example state\<close>

text \<open>
  The scenario of the specification: the critical item \<^verbatim>\<open>DoubleClickSpeed\<close>, cached and
  baseline value 500, external value changed to 100; one contact with an e-mail address; a
  transport that delivers; threshold 1 and notification frequency ``Never''.
\<close>

definition ex_key :: item where
  "ex_key = \<lparr>m_path = ''Control Panel/Mouse'', m_valueName = ''DoubleClickSpeed'', m_isCritical = True,
      m_value = ''500'', m_previousValue = ''500'', m_newValue = '''', m_changeCount = 0,
      m_rollbackCancelled = False,
      m_qsettings = \<lparr>resource = Val ''100'', writable = True, writes = [], syncs = 0\<rparr>\<rparr>"

definition ex_database :: database where
  "ex_database = \<lparr>connected = True, Changes = [], ConfigurationSettings = [],
      UserSettings = [\<lparr>user_email = ''admin@example.org'', phone_number = ''''\<rparr>]\<rparr>"

definition ex_alert :: alert where
  "ex_alert = \<lparr>m_snsClient = True, m_sesv2Client = True, m_database_set = True, m_alertTimestamps = []\<rparr>"

definition ex_monitoring :: monitoring where
  "ex_monitoring = \<lparr>m_monitoringActive = True, timer_running = True, timer_interval = 1000,
      m_items = [ex_key], m_lastAlertedValue = [],
      m_settings = \<lparr>m_nonCriticalAlertThreshold = ''1'', m_notificationFrequency = ''Never''\<rparr>,
      m_database = ex_database, m_alert = ex_alert, emitted = []\<rparr>"

definition ex_env :: env where
  "ex_env = \<lparr>transport = (\<lambda>c a msg. True), clock = 1000000\<rparr>"

text \<open>
  The same item with its plist file or registry key missing, and the monitoring object
  whose debounce table holds the cached value 500 of that item, as it does once a change to
  500 has been handled.
\<close>

definition ex_key_missing :: item where
  "ex_key_missing =
     ex_key\<lparr>m_qsettings := \<lparr>resource = FileMissing, writable = True, writes = [], syncs = 0\<rparr>\<rparr>"

definition ex_monitoring_alerted :: monitoring where
  "ex_monitoring_alerted = ex_monitoring\<lparr>m_lastAlertedValue := [(''DoubleClickSpeed'', ''500'')]\<rparr>"

text \<open>Three calls of \<^verbatim>\<open>sendAlert\<close> within a few milliseconds, each with its two clock reads.\<close>

definition ex_calls :: "(int \<times> int) list" where
  "ex_calls = [(1000000, 1000001), (1000002, 1000003), (1000004, 1000005)]"

text \<open>
  Key material: the key 00 01 ... 1f with the vector 10 11 ... 1f, and the same key with a
  vector that differs in its first byte (11 instead of 10). The strings are given by their
  code units: \<^verbatim>\<open>500\<close> is 35 30 30, and \<open>ex_text\<close> is the string \<^verbatim>\<open>0123456789abcdef-xyz\<close>.
\<close>

definition ex_keys :: key_state where
  "ex_keys = \<lparr>encryptionKey = map of_nat [0..<32], encryptionIv = map of_nat [16..<32]\<rparr>"

definition ex_keys_other_iv :: key_state where
  "ex_keys_other_iv = \<lparr>encryptionKey = map of_nat [0..<32], encryptionIv = 17 # map of_nat [17..<32]\<rparr>"

definition ex_text :: qstring where
  "ex_text = [0x30, 0x31, 0x32, 0x33, 0x34, 0x35, 0x36, 0x37, 0x38, 0x39,
              0x61, 0x62, 0x63, 0x64, 0x65, 0x66, 0x2d, 0x78, 0x79, 0x7a]"

section \<open>Auxiliary facts\<close>

subsection \<open>Reading and writing the external resource\<close>

lemma PlistFile_getCurrentValue_eq:
  "PlistFile_getCurrentValue k = RegistryKey_getCurrentValue k"
  by (cases "resource (m_qsettings k)")
     (simp_all add: PlistFile_getCurrentValue_def RegistryKey_getCurrentValue_def
        RegistryKey_readCurrentValue_def)

lemma getCurrentValue_Registry: "getCurrentValue pf k = RegistryKey_getCurrentValue k"
  by (cases pf) (simp_all add: PlistFile_getCurrentValue_eq)

lemma getCurrentValue_setNewValue [simp]:
  "getCurrentValue pf (setNewValue v k) = getCurrentValue pf k"
  by (simp add: getCurrentValue_Registry setNewValue_def RegistryKey_getCurrentValue_def
      RegistryKey_readCurrentValue_def)

subsection \<open>What a tick does to the change log and to the cached value\<close>

lemma Changes_insertOrUpdateConfiguration [simp]:
  "Changes (insertOrUpdateConfiguration n p v c db) = Changes db"
  by (simp add: insertOrUpdateConfiguration_def)

lemma m_database_emit [simp]: "m_database (emit fx m) = m_database m"
  by (simp add: emit_def)

lemma emitted_emit [simp]: "emitted (emit fx m) = emitted m @ fx"
  by (simp add: emit_def)

lemma m_settings_emit [simp]: "m_settings (emit fx m) = m_settings m"
  by (simp add: emit_def)

lemma m_database_call_sendAlert [simp]: "m_database (call_sendAlert e msg m) = m_database m"
  by (simp add: call_sendAlert_def Let_def)

lemma m_settings_call_sendAlert [simp]: "m_settings (call_sendAlert e msg m) = m_settings m"
  by (simp add: call_sendAlert_def Let_def)

lemma m_database_Windows_onRollbackPerformed [simp]:
  "m_database (Windows_onRollbackPerformed fx m) = m_database m"
  by (induction fx m rule: Windows_onRollbackPerformed.induct) simp_all

lemma m_database_MacOS_onRollbackPerformed [simp]:
  "m_database (MacOS_onRollbackPerformed e fx m) = m_database m"
  by (induction e fx m rule: MacOS_onRollbackPerformed.induct) simp_all

lemma Changes_rollbackIfNeeded [simp]:
  "Changes (fst (snd (rollbackIfNeeded pf key db))) = Changes db"
  by (simp add: rollbackIfNeeded_def Let_def)

text \<open>
  A tick appends one row per item whose observed value differs from the cached one, before
  the debounce test and before the branch on criticality, and nothing else touches the log.
\<close>

lemma Changes_WindowsMonitoring_checkKey:
  "Changes (m_database (snd (WindowsMonitoring_checkKey e key m))) =
     (if RegistryKey_getCurrentValue key \<noteq> m_value key \<and> connected (m_database m)
      then Changes (m_database m) @ [logged_change key (RegistryKey_getCurrentValue key)]
      else Changes (m_database m))"
  by (simp add: WindowsMonitoring_checkKey_def Let_def insertChange_def logged_change_def)

lemma Changes_MacOSMonitoring_checkFile:
  "Changes (m_database (snd (MacOSMonitoring_checkFile e plist m))) =
     (if PlistFile_getCurrentValue plist \<noteq> m_value plist \<and> connected (m_database m)
      then Changes (m_database m) @ [logged_change plist (PlistFile_getCurrentValue plist)]
      else Changes (m_database m))"
  by (simp add: MacOSMonitoring_checkFile_def Let_def insertChange_def logged_change_def)

text \<open>Every path of a tick ends by caching the observed value.\<close>

lemma m_value_rollbackIfNeeded [simp]:
  "m_value (fst (rollbackIfNeeded pf key db)) = m_value key"
  by (simp add: rollbackIfNeeded_def restorePreviousValue_def Let_def setNewValue_def)

lemma m_value_RegistryKey_setValue [simp]: "m_value (fst (RegistryKey_setValue v k)) = v"
  by (simp add: RegistryKey_setValue_def)

lemma m_value_PlistFile_setValue [simp]: "m_value (fst (PlistFile_setValue v k)) = v"
  by (simp add: PlistFile_setValue_def)

lemma m_value_WindowsMonitoring_checkKey:
  "m_value (fst (WindowsMonitoring_checkKey e key m)) = RegistryKey_getCurrentValue key"
  by (simp add: WindowsMonitoring_checkKey_def Let_def)

lemma m_value_MacOSMonitoring_checkFile:
  "m_value (fst (MacOSMonitoring_checkFile e plist m)) = PlistFile_getCurrentValue plist"
  by (simp add: MacOSMonitoring_checkFile_def Let_def)

subsection \<open>Which effects are calls of sendAlert\<close>

lemma send_each_no_SendAlert [simp]:
  "filter is_SendAlert (snd (send_each tr a msg us b)) = []"
  by (induction us arbitrary: b) (simp_all add: Let_def sendEmailAlert_def sendSmsAlert_def)

lemma sendAlert_no_SendAlert [simp]:
  "filter is_SendAlert (snd (snd (sendAlert tr f db n s msg a))) = []"
  by (simp add: sendAlert_def Let_def)

lemma requested_call_sendAlert [simp]:
  "filter is_SendAlert (emitted (call_sendAlert e msg m))
     = filter is_SendAlert (emitted m) @ [SendAlert msg]"
  by (simp add: call_sendAlert_def Let_def)

lemma snd_RegistryKey_setValue [simp]: "snd (RegistryKey_setValue v k) = []"
  by (simp add: RegistryKey_setValue_def)

lemma requested_PlistFile_setValue [simp]:
  "filter is_SendAlert (snd (PlistFile_setValue v k)) = []"
  by (simp add: PlistFile_setValue_def)

lemma m_changeCount_RegistryKey_setValue [simp]:
  "m_changeCount (fst (RegistryKey_setValue v k)) = m_changeCount k"
  by (simp add: RegistryKey_setValue_def)

lemma m_changeCount_PlistFile_setValue [simp]:
  "m_changeCount (fst (PlistFile_setValue v k)) = m_changeCount k"
  by (simp add: PlistFile_setValue_def)

lemma requested_Windows_onRollbackPerformed [simp]:
  "filter is_SendAlert (emitted (Windows_onRollbackPerformed fx m))
     = filter is_SendAlert (emitted m) @ filter is_SendAlert fx"
  by (induction fx m rule: Windows_onRollbackPerformed.induct) simp_all

lemma requested_rollbackIfNeeded [simp]:
  "filter is_SendAlert (snd (snd (snd (rollbackIfNeeded pf key db)))) = []"
  by (simp add: rollbackIfNeeded_def Let_def)

text \<open>
  On Windows both callers of \<^verbatim>\<open>sendAlert\<close> test the frequency first: with ``Never'' neither
  a tick nor the delayed callback of a critical change calls it.
\<close>

lemma Windows_Never_checkKey:
  "equal_ci (m_notificationFrequency (m_settings m)) ''Never'' \<Longrightarrow>
   filter is_SendAlert (emitted (snd (WindowsMonitoring_checkKey e key m)))
     = filter is_SendAlert (emitted m)"
  by (simp add: WindowsMonitoring_checkKey_def Let_def)

lemma Windows_Never_delayedAlert:
  "equal_ci (m_notificationFrequency (m_settings m)) ''Never'' \<Longrightarrow>
   WindowsMonitoring_delayedAlert e key msg m = m"
  by (simp add: WindowsMonitoring_delayedAlert_def)

subsection \<open>Which effects are rollback signals, and what is written\<close>

lemma filter_RollbackPerformed_send_each [simp]:
  "filter is_RollbackPerformed (snd (send_each tr a msg us b)) = []"
  by (induction us arbitrary: b) (simp_all add: Let_def sendEmailAlert_def sendSmsAlert_def)

lemma filter_RollbackPerformed_sendAlert [simp]:
  "filter is_RollbackPerformed (snd (snd (sendAlert tr f db n s msg a))) = []"
  by (simp add: sendAlert_def Let_def)

lemma filter_RollbackPerformed_call_sendAlert [simp]:
  "filter is_RollbackPerformed (emitted (call_sendAlert e msg m))
     = filter is_RollbackPerformed (emitted m)"
  by (simp add: call_sendAlert_def Let_def)

lemma writes_QSettings [simp]:
  "writes (QSettings_sync (QSettings_setValue v q)) = writes q @ [v]"
  by (simp add: QSettings_sync_def QSettings_setValue_def)

subsection \<open>sendAlert\<close>

lemma send_each_delivered:
  "fst (send_each tr a msg us b) = (b \<or> list_ex is_delivered (snd (send_each tr a msg us b)))"
  by (induction us arbitrary: b)
     (auto simp add: Let_def sendEmailAlert_def sendSmsAlert_def)

lemma sendAlert_true_iff_delivered:
  "fst (sendAlert tr f db n s msg a) = list_ex is_delivered (snd (snd (sendAlert tr f db n s msg a)))"
  using send_each_delivered [of tr _ msg "getAllUserSettings db" False]
  by (simp add: sendAlert_def Let_def)

lemma send_each_timestamps [simp]:
  "send_each tr (a\<lparr>m_alertTimestamps := ts\<rparr>) msg us b = send_each tr a msg us b"
  by (induction us arbitrary: b) (simp_all add: Let_def sendEmailAlert_def sendSmsAlert_def)

lemma send_each_needs_contact:
  "fst (send_each tr a msg us b) \<Longrightarrow>
   b \<or> list_ex (\<lambda>u. user_email u \<noteq> [] \<or> phone_number u \<noteq> []) us"
  by (induction us arbitrary: b) (auto simp add: Let_def split: if_splits)

text \<open>The loop succeeds exactly when the transport accepts the message for some contact.\<close>

lemma send_each_accepts:
  "fst (send_each tr a msg us b) = (b \<or> list_ex (accepts tr a msg) us)"
  by (induction us arbitrary: b)
     (auto simp add: Let_def sendEmailAlert_def sendSmsAlert_def accepts_def)

lemma send_each_reports: "list_all (reports tr) (snd (send_each tr a msg us b))"
  by (induction us arbitrary: b) (simp_all add: Let_def sendEmailAlert_def sendSmsAlert_def)

lemma sendAlert_reports: "list_all (reports tr) (snd (snd (sendAlert tr f db n s msg a)))"
  by (simp add: sendAlert_def Let_def send_each_reports)

lemma accepts_timestamps [simp]: "accepts tr (a\<lparr>m_alertTimestamps := ts\<rparr>) msg = accepts tr a msg"
  by (rule ext) (simp add: accepts_def)

lemma accepts_needs_contact:
  "list_ex (accepts tr a msg) us \<Longrightarrow>
   (m_snsClient a \<or> m_sesv2Client a) \<and> us \<noteq> []
   \<and> list_ex (\<lambda>u. user_email u \<noteq> [] \<or> phone_number u \<noteq> []) us"
  by (auto simp add: list_ex_iff accepts_def)

lemma deliverable_send_each:
  "deliverable tr a db msg =
     ((m_snsClient a \<or> m_sesv2Client a) \<and> m_database_set a
      \<and> fst (send_each tr a msg (getAllUserSettings db) False))"
  using accepts_needs_contact [of tr a msg "getAllUserSettings db"]
  by (auto simp add: deliverable_def send_each_accepts)

text \<open>
  The result of \<^verbatim>\<open>sendAlert\<close>: a delivery can succeed and the pruned window holds fewer
  timestamps than the limit.
\<close>

lemma sendAlert_result:
  "fst (sendAlert tr f db n s msg a)
     = (deliverable tr a db msg
        \<and> int (length (within_hour n (m_alertTimestamps a))) < hourly_limit f)"
  using accepts_needs_contact [of tr a msg "getAllUserSettings db"]
  by (auto simp add: sendAlert_def Let_def deliverable_def send_each_accepts within_hour_def
      hourly_limit_def)

text \<open>On a deliverable alert object only the window decides.\<close>

lemma sendAlert_deliverable:
  assumes "deliverable tr a db msg"
  shows "sendAlert tr f db n s msg a =
     (let limit = (if QString_toInt f \<le> 0 then 10 else QString_toInt f);
          a1 = a\<lparr>m_alertTimestamps := within_hour n (m_alertTimestamps a)\<rparr>
      in if int (length (within_hour n (m_alertTimestamps a))) < limit
         then (True, a1\<lparr>m_alertTimestamps := within_hour n (m_alertTimestamps a) @ [s]\<rparr>,
               snd (send_each tr a msg (getAllUserSettings db) False))
         else (False, a1, []))"
proof -
  from assms have d: "fst (send_each tr a msg (getAllUserSettings db) False)"
    and c: "m_snsClient a \<or> m_sesv2Client a" and s: "m_database_set a"
    by (simp_all add: deliverable_send_each)
  from send_each_needs_contact [OF d]
  have v: "list_ex (\<lambda>u. user_email u \<noteq> [] \<or> phone_number u \<noteq> []) (getAllUserSettings db)"
    by simp
  then have ne: "getAllUserSettings db \<noteq> []" by auto
  show ?thesis
    using d c s v ne by (auto simp add: sendAlert_def Let_def within_hour_def)
qed

text \<open>
  The alert object after a call is the one before it up to its window, and a later pruning
  absorbs an earlier one.
\<close>

lemma sendAlert_alert:
  "fst (snd (sendAlert tr f db n s msg a))
     = a\<lparr>m_alertTimestamps := m_alertTimestamps (fst (snd (sendAlert tr f db n s msg a)))\<rparr>"
  by (simp add: sendAlert_def Let_def)

lemma within_hour_within_hour: "n \<le> n' \<Longrightarrow> within_hour n' (within_hour n ts) = within_hour n' ts"
  by (induction ts) (auto simp add: within_hour_def)

lemma sendAlert_timestamps:
  "(fst (sendAlert tr f db n s msg a) \<longrightarrow>
      m_alertTimestamps (fst (snd (sendAlert tr f db n s msg a)))
        = within_hour n (m_alertTimestamps a) @ [s])
   \<and> (\<not> fst (sendAlert tr f db n s msg a) \<longrightarrow>
      m_alertTimestamps (fst (snd (sendAlert tr f db n s msg a))) = m_alertTimestamps a
      \<or> m_alertTimestamps (fst (snd (sendAlert tr f db n s msg a)))
        = within_hour n (m_alertTimestamps a))"
  by (simp add: sendAlert_def Let_def within_hour_def)

lemma deliverable_timestamps [simp]:
  "deliverable tr (a\<lparr>m_alertTimestamps := ts\<rparr>) db msg = deliverable tr a db msg"
  by (simp add: deliverable_def)

lemma within_hour_all:
  "\<forall>t \<in> set ts. lo \<le> t \<Longrightarrow> n \<le> lo + 3600000 \<Longrightarrow> within_hour n ts = ts"
  by (auto simp add: within_hour_def filter_id_conv)

text \<open>
  A burst within one hour on a deliverable alert object: the calls succeed until the
  window holds as many timestamps as the frequency allows, and fail from then on.
\<close>

lemma burst_general:
  assumes "deliverable tr a db msg" and "0 < QString_toInt f"
    and "\<forall>t \<in> set (m_alertTimestamps a). lo \<le> t"
    and "\<forall>c \<in> set calls. lo \<le> snd c \<and> fst c \<le> lo + 3600000"
  shows "fst (burst tr f db msg calls a)
     = replicate (min (length calls) (nat (QString_toInt f) - length (m_alertTimestamps a))) True
       @ replicate (length calls - (nat (QString_toInt f) - length (m_alertTimestamps a))) False"
  using assms
proof (induction calls arbitrary: a)
  case Nil
  then show ?case by simp
next
  case (Cons c cs)
  let ?ts = "m_alertTimestamps a"
  from Cons.prems have w: "within_hour (fst c) ?ts = ?ts"
    by (intro within_hour_all [of _ lo]) auto
  show ?case
  proof (cases "int (length ?ts) < QString_toInt f")
    case True
    let ?a' = "a\<lparr>m_alertTimestamps := ?ts @ [snd c]\<rparr>"
    from True Cons.prems(1,2) w
    have step: "sendAlert tr f db (fst c) (snd c) msg a
        = (True, ?a', snd (send_each tr a msg (getAllUserSettings db) False))"
      by (simp add: sendAlert_deliverable Let_def)
    have ih: "fst (burst tr f db msg cs ?a')
       = replicate (min (length cs) (nat (QString_toInt f) - length (m_alertTimestamps ?a'))) True
         @ replicate (length cs - (nat (QString_toInt f) - length (m_alertTimestamps ?a'))) False"
      using Cons.prems by (intro Cons.IH) auto
    from True obtain d where d: "nat (QString_toInt f) - length ?ts = Suc d"
      by (cases "nat (QString_toInt f) - length ?ts") auto
    then have d': "nat (QString_toInt f) - length (m_alertTimestamps ?a') = d"
      by simp
    show ?thesis
      by (simp add: step Let_def ih d d' del: replicate_Suc)
         (simp add: d' [simplified])
  next
    case False
    from False Cons.prems(1,2) w
    have step: "sendAlert tr f db (fst c) (snd c) msg a = (False, a, [])"
      by (simp add: sendAlert_deliverable Let_def)
    from False have z: "nat (QString_toInt f) - length ?ts = 0" by auto
    have ih: "fst (burst tr f db msg cs a)
       = replicate (min (length cs) (nat (QString_toInt f) - length ?ts)) True
         @ replicate (length cs - (nat (QString_toInt f) - length ?ts)) False"
      using Cons.prems by (intro Cons.IH) auto
    show ?thesis
      by (simp add: step Let_def ih z)
  qed
qed

subsection \<open>AES: the inverse cipher undoes the cipher\<close>

lemma sbox_check: "list_all (\<lambda>n. inv_sbox (sbox (of_nat n)) = of_nat n) [0..<256]"
  by code_simp

lemma inv_sbox_sbox [simp]: "inv_sbox (sbox x) = x"
proof -
  have "unat x \<in> set [0..<256]"
    using unsigned_less [of x, where 'a = nat] by simp
  with sbox_check have "inv_sbox (sbox (of_nat (unat x))) = of_nat (unat x)"
    unfolding list_all_iff by (rule bspec)
  then show ?thesis by simp
qed

lemma xtime_xor: "xtime (a XOR b) = xtime a XOR xtime b"
  by (simp add: xtime_def bit_xor_iff ac_simps)

lemma xor_cancel_left: "a XOR (a XOR b) = (b::byte)"
  by (simp add: xor.assoc [symmetric])

lemma mix_inv4:
  fixes a b c d :: byte
  shows "mul14 (xtime a XOR mul3 b XOR c XOR d) XOR mul11 (a XOR xtime b XOR mul3 c XOR d)
          XOR mul13 (a XOR b XOR xtime c XOR mul3 d) XOR mul9 (mul3 a XOR b XOR c XOR xtime d) = a"
    and "mul9 (xtime a XOR mul3 b XOR c XOR d) XOR mul14 (a XOR xtime b XOR mul3 c XOR d)
          XOR mul11 (a XOR b XOR xtime c XOR mul3 d) XOR mul13 (mul3 a XOR b XOR c XOR xtime d) = b"
    and "mul13 (xtime a XOR mul3 b XOR c XOR d) XOR mul9 (a XOR xtime b XOR mul3 c XOR d)
          XOR mul14 (a XOR b XOR xtime c XOR mul3 d) XOR mul11 (mul3 a XOR b XOR c XOR xtime d) = c"
    and "mul11 (xtime a XOR mul3 b XOR c XOR d) XOR mul13 (a XOR xtime b XOR mul3 c XOR d)
          XOR mul9 (a XOR b XOR xtime c XOR mul3 d) XOR mul14 (mul3 a XOR b XOR c XOR xtime d) = d"
  by (simp_all add: mul3_def mul9_def mul11_def mul13_def mul14_def xtime_xor xor_cancel_left ac_simps)

lemma length16_explicit:
  assumes "length s = 16"
  shows "s = [s ! 0, s ! 1, s ! 2, s ! 3, s ! 4, s ! 5, s ! 6, s ! 7,
              s ! 8, s ! 9, s ! 10, s ! 11, s ! 12, s ! 13, s ! 14, s ! 15]"
  using assms
  by (intro nth_equalityI) (auto simp add: nth_Cons' less_Suc_eq numeral_eq_Suc)

lemma length_shift_rows [simp]: "length (shift_rows s) = 16"
  by (simp add: shift_rows_def)

lemma length_sub_bytes [simp]: "length (sub_bytes s) = length s"
  by (simp add: sub_bytes_def)

lemma length_mix_columns [simp]: "length (mix_columns s) = 16"
  by (simp add: mix_columns_def mix_column_def)

lemma length_inv_mix_columns [simp]: "length (inv_mix_columns s) = 16"
  by (simp add: inv_mix_columns_def inv_mix_column_def)

lemma length_add_round_key [simp]: "length (add_round_key s k) = 16"
  by (simp add: add_round_key_def)

lemma inv_sub_bytes_sub_bytes [simp]: "inv_sub_bytes (sub_bytes s) = s"
  by (simp add: inv_sub_bytes_def sub_bytes_def map_idI)

lemma inv_shift_rows_shift_rows [simp]:
  assumes "length s = 16"
  shows "inv_shift_rows (shift_rows s) = s"
  by (subst (2) length16_explicit [OF assms]) (simp add: inv_shift_rows_def shift_rows_def)

lemma inv_mix_columns_mix_columns [simp]:
  assumes "length s = 16"
  shows "inv_mix_columns (mix_columns s) = s"
  by (subst (2) length16_explicit [OF assms])
     (simp add: inv_mix_columns_def mix_columns_def inv_mix_column_def mix_column_def mix_inv4)

lemma upt_16: "[0..<16] = [0, 1, 2, 3, 4, 5, 6, 7, 8, 9, 10, 11, 12, 13, 14, 15]"
  by (simp add: upt_rec)

lemma add_round_key_explicit:
  "add_round_key s k = [s ! 0 XOR k ! 0, s ! 1 XOR k ! 1, s ! 2 XOR k ! 2, s ! 3 XOR k ! 3,
     s ! 4 XOR k ! 4, s ! 5 XOR k ! 5, s ! 6 XOR k ! 6, s ! 7 XOR k ! 7,
     s ! 8 XOR k ! 8, s ! 9 XOR k ! 9, s ! 10 XOR k ! 10, s ! 11 XOR k ! 11,
     s ! 12 XOR k ! 12, s ! 13 XOR k ! 13, s ! 14 XOR k ! 14, s ! 15 XOR k ! 15]"
  unfolding add_round_key_def upt_16 by simp

lemma add_round_key_twice [simp]:
  assumes "length s = 16"
  shows "add_round_key (add_round_key s k) k = s"
  by (subst (2) length16_explicit [OF assms])
     (simp add: add_round_key_explicit xor.assoc)

lemma length_enc_rounds [simp]: "length s = 16 \<Longrightarrow> length (enc_rounds ek rs s) = 16"
  by (induction rs arbitrary: s) simp_all

lemma dec_rounds_append: "dec_rounds ek (rs @ rs') s = dec_rounds ek rs' (dec_rounds ek rs s)"
  by (induction rs arbitrary: s) simp_all

lemma dec_rounds_enc_rounds:
  "length s = 16 \<Longrightarrow>
   dec_rounds ek (rev rs) (shift_rows (sub_bytes (enc_rounds ek rs s))) = shift_rows (sub_bytes s)"
  by (induction rs arbitrary: s) (simp_all add: dec_rounds_append)

lemma aes_inv_cipher_cipher: "length s = 16 \<Longrightarrow> aes_inv_cipher ek (aes_cipher ek s) = s"
  by (simp add: aes_inv_cipher_def aes_cipher_def dec_rounds_enc_rounds)

lemma length_aes_cipher [simp]: "length (aes_cipher ek s) = 16"
  by (simp add: aes_cipher_def)

subsection \<open>Base64: decoding undoes encoding\<close>

lemma unat_byte_less: "unat (a :: byte) < 256"
  using unsigned_less [of a, where 'a = nat] by simp

lemma div_mod_16:
  fixes q s :: nat
  assumes "s < 16"
  shows "(16 * q + s) div 16 = q" and "(16 * q + s) mod 16 = s"
  using assms by simp_all

lemma div_mod_4:
  fixes q s :: nat
  assumes "s < 4"
  shows "(4 * q + s) div 4 = q" and "(4 * q + s) mod 4 = s"
  using assms by simp_all

lemma split4: "(x::nat) div 4 * 4 + x mod 4 = x"
  by simp

lemma split16: "(x::nat) div 16 * 16 + x mod 16 = x"
  by simp

lemma split64: "(x::nat) div 64 * 64 + x mod 64 = x"
  by simp

lemma lin16: "(q::nat) * 64 + (r * 16 + s) = 16 * (q * 4 + r) + s"
  by simp

lemma lin4: "(q::nat) * 64 + (r * 4 + s) = 4 * (q * 16 + r) + s"
  by simp

lemma small16: "(y::nat) < 256 \<Longrightarrow> y div 16 < 16"
  by simp

lemma small4: "(z::nat) < 256 \<Longrightarrow> z div 64 < 4"
  by simp

lemma regroup1:
  fixes x y :: nat
  assumes "y < 256"
  shows "(x div 4 * 64 + (x mod 4 * 16 + y div 16)) div 16 = x"
    and "(x div 4 * 64 + (x mod 4 * 16 + y div 16)) mod 16 = y div 16"
  unfolding lin16 split4 using small16 [OF assms] by (rule div_mod_16)+

lemma regroup2:
  fixes y z :: nat
  assumes "z < 256"
  shows "(y div 16 * 64 + (y mod 16 * 4 + z div 64)) div 4 = y"
    and "(y div 16 * 64 + (y mod 16 * 4 + z div 64)) mod 4 = z div 64"
  unfolding lin4 split16 using small4 [OF assms] by (rule div_mod_4)+

lemma regroup3:
  fixes x y :: nat
  shows "(x div 4 * 64 + x mod 4 * 16) div 16 = x"
    and "(x div 4 * 64 + x mod 4 * 16) mod 16 = 0"
    and "(y div 16 * 64 + y mod 16 * 4) div 4 = y"
    and "(y div 16 * 64 + y mod 16 * 4) mod 4 = 0"
  using regroup1 [of 0 x] regroup2 [of 0 y] by simp_all

lemma sextet1: "(x::nat) < 256 \<Longrightarrow> x div 4 < 64"
  by simp

lemma sextet2: "(y::nat) < 256 \<Longrightarrow> x mod 4 * 16 + y div 16 < 64"
proof -
  assume "y < 256"
  then have "y div 16 < 16" by simp
  moreover have "x mod 4 < 4" by simp
  then have "x mod 4 * 16 \<le> 3 * 16" by (intro mult_le_mono1) simp
  ultimately show ?thesis by linarith
qed

lemma sextet3: "(z::nat) < 256 \<Longrightarrow> y mod 16 * 4 + z div 64 < 64"
proof -
  assume "z < 256"
  then have "z div 64 < 4" by simp
  moreover have "y mod 16 < 16" by simp
  then have "y mod 16 * 4 \<le> 15 * 4" by (intro mult_le_mono1) simp
  ultimately show ?thesis by linarith
qed

lemma sextet4: "(x::nat) mod 4 * 16 < 64" and sextet5: "(y::nat) mod 16 * 4 < 64"
  using sextet2 [of 0 x] sextet3 [of 0 y] by simp_all


lemma unat_small: "n < 256 \<Longrightarrow> unat (of_nat n :: byte) = n"
  by (simp add: unat_of_nat)

lemma b64_index_char: "i < 64 \<Longrightarrow> b64_index (b64_char i) = Some i"
proof -
  assume i: "i < 64"
  consider "i < 26" | "26 \<le> i" "i < 52" | "52 \<le> i" "i < 62" | "i = 62" | "i = 63"
    using i by linarith
  then show ?thesis
  proof cases
    case 1
    then show ?thesis by (simp add: b64_index_def b64_char_def unat_small del: of_nat_add)
  next
    case 2
    then show ?thesis by (simp add: b64_index_def b64_char_def unat_small del: of_nat_add)
  next
    case 3
    then show ?thesis
      by (auto simp add: b64_index_def b64_char_def unat_small Let_def simp del: of_nat_diff)
  next
    case 4
    then show ?thesis by (simp add: b64_index_def b64_char_def)
  next
    case 5
    then show ?thesis by (simp add: b64_index_def b64_char_def)
  qed
qed

lemma b64_index_pad: "b64_index 61 = None"
  by (simp add: b64_index_def)

lemma b64_step_60:
  "d < 64 \<Longrightarrow> b64_decode 0 0 (b64_char d # cs) = b64_decode d 6 cs"
  by (simp add: b64_index_char)

lemma b64_step_emit:
  "d < 64 \<Longrightarrow> 2 \<le> nbits \<Longrightarrow>
   b64_decode buf nbits (b64_char d # cs)
     = of_nat ((buf * 64 + d) div 2 ^ (nbits - 2))
         # b64_decode ((buf * 64 + d) mod 2 ^ (nbits - 2)) (nbits - 2) cs"
  by (simp add: b64_index_char Let_def)

lemma b64_step_pad: "b64_decode buf nbits (61 # cs) = b64_decode buf nbits cs"
  by (simp add: b64_index_pad)

lemma b64_decode_group:
  "b64_decode 0 0 (toBase64 [a, b, c] @ cs) = [a, b, c] @ b64_decode 0 0 cs"
proof -
  let ?x = "unat a" and ?y = "unat b" and ?z = "unat c"
  have x: "?x < 256" and y: "?y < 256" and z: "?z < 256"
    by (rule unat_byte_less)+
  have "b64_decode 0 0 (toBase64 [a, b, c] @ cs)
      = b64_decode (?x div 4) 6
          (b64_char (?x mod 4 * 16 + ?y div 16) # b64_char (?y mod 16 * 4 + ?z div 64)
             # b64_char (?z mod 64) # cs)"
    by (simp add: Let_def b64_step_60 sextet1 [OF x] del: b64_decode.simps)
  also have "\<dots> = a # b64_decode (?y div 16) 4
          (b64_char (?y mod 16 * 4 + ?z div 64) # b64_char (?z mod 64) # cs)"
    by (simp add: b64_step_emit sextet2 [OF y] regroup1 [OF y] del: b64_decode.simps)
  also have "\<dots> = a # b # b64_decode (?z div 64) 2 (b64_char (?z mod 64) # cs)"
    by (simp add: b64_step_emit sextet3 [OF z] regroup2 [OF z] del: b64_decode.simps)
  also have "\<dots> = a # b # c # b64_decode 0 0 cs"
    by (simp add: b64_step_emit split64 del: b64_decode.simps)
  finally show ?thesis by simp
qed

lemma b64_decode_tail1: "b64_decode 0 0 (toBase64 [a]) = [a]"
proof -
  let ?x = "unat a"
  have x: "?x < 256" by (rule unat_byte_less)
  have "b64_decode 0 0 (toBase64 [a]) = b64_decode (?x div 4) 6 [b64_char (?x mod 4 * 16), 61, 61]"
    by (simp add: Let_def b64_step_60 sextet1 [OF x] del: b64_decode.simps)
  also have "\<dots> = a # b64_decode 0 4 [61, 61]"
    by (simp add: b64_step_emit sextet4 regroup3 del: b64_decode.simps)
  also have "\<dots> = [a]"
    by (simp add: b64_step_pad del: b64_decode.simps) simp
  finally show ?thesis .
qed

lemma b64_decode_tail2: "b64_decode 0 0 (toBase64 [a, b]) = [a, b]"
proof -
  let ?x = "unat a" and ?y = "unat b"
  have x: "?x < 256" and y: "?y < 256" by (rule unat_byte_less)+
  have "b64_decode 0 0 (toBase64 [a, b])
      = b64_decode (?x div 4) 6
          [b64_char (?x mod 4 * 16 + ?y div 16), b64_char (?y mod 16 * 4), 61]"
    by (simp add: Let_def b64_step_60 sextet1 [OF x] del: b64_decode.simps)
  also have "\<dots> = a # b64_decode (?y div 16) 4 [b64_char (?y mod 16 * 4), 61]"
    by (simp add: b64_step_emit sextet2 [OF y] regroup1 [OF y] del: b64_decode.simps)
  also have "\<dots> = a # b # b64_decode 0 2 [61]"
    by (simp add: b64_step_emit sextet5 regroup3 del: b64_decode.simps)
  also have "\<dots> = [a, b]"
    by (simp add: b64_step_pad del: b64_decode.simps) simp
  finally show ?thesis .
qed

lemma fromBase64_toBase64: "fromBase64 (toBase64 bs) = bs"
proof (induction bs rule: toBase64.induct)
  case 1
  then show ?case by (simp add: fromBase64_def)
next
  case (2 a)
  then show ?case
    unfolding fromBase64_def by (rule b64_decode_tail1)
next
  case (3 a b)
  then show ?case
    unfolding fromBase64_def by (rule b64_decode_tail2)
next
  case (4 a b c r)
  have "toBase64 (a # b # c # r) = toBase64 [a, b, c] @ toBase64 r"
    by (simp add: Let_def)
  with 4 show ?case
    by (simp add: fromBase64_def b64_decode_group del: toBase64.simps b64_decode.simps)
qed

lemma toBase64_empty_iff: "toBase64 bs = [] \<longleftrightarrow> bs = []"
  by (cases bs rule: toBase64.cases) (simp_all add: Let_def)

subsection \<open>UTF-8 conversion\<close>

lemma fromUtf8_Nil [simp]: "fromUtf8 [] = []"
  by (simp add: fromUtf8_def)

lemma ascii_byte: "u < 0x80 \<Longrightarrow> (ucast (u :: 16 word) :: byte) < 0x80"
  by (simp add: word_less_nat_alt unsigned_ucast_eq take_bit_nat_eq_self)

lemma ascii_back: "u < 0x80 \<Longrightarrow> (ucast (ucast (u :: 16 word) :: byte) :: 16 word) = u"
  by (simp add: word_less_nat_alt word_unat_eq_iff unsigned_ucast_eq unsigned_take_bit_eq
      take_bit_nat_eq_self)

lemma fromUtf8_char_ascii: "b < 0x80 \<Longrightarrow> fromUtf8_char b src = Some ([ucast b], 1)"
  by (simp add: fromUtf8_char_def)

text \<open>Every decoded sequence and every decoding error give at least one code unit.\<close>

lemma fromUtf8_char_not_empty: "fromUtf8_char b src = Some r \<Longrightarrow> fst r \<noteq> []"
  by (auto simp add: fromUtf8_char_def Let_def split: if_splits)

lemma convertToUnicode_not_empty: "bs \<noteq> [] \<Longrightarrow> convertToUnicode bs \<noteq> []"
  by (cases bs) (auto simp add: fromUtf8_char_not_empty split: option.splits)

lemma fromUtf8_not_empty: "4 \<le> length ba \<Longrightarrow> fromUtf8 ba \<noteq> []"
  by (auto simp add: fromUtf8_def intro!: convertToUnicode_not_empty)

text \<open>Bit operations on natural numbers, as arithmetic.\<close>

lemma or_disjoint_nat: "q < 2 ^ n \<Longrightarrow> push_bit n a OR q = push_bit n a + (q::nat)"
proof -
  assume "q < 2 ^ n"
  then have q: "take_bit n q = q" by (simp add: take_bit_nat_eq_self)
  have "push_bit n a + take_bit n q = push_bit n a OR take_bit n q"
    by (rule disjunctive_add) (simp add: bit_simps)
  with q show ?thesis by simp
qed

lemma and_mask_nat: "(x::nat) AND mask n = x mod 2 ^ n"
  by (simp flip: take_bit_eq_mask add: take_bit_nat_def)

lemma and_63: "(x::nat) AND 63 = x mod 64"
  using and_mask_nat [of x 6] by (simp add: mask_eq_exp_minus_1)

lemma and_31: "(x::nat) AND 31 = x mod 32"
  using and_mask_nat [of x 5] by (simp add: mask_eq_exp_minus_1)

lemma and_15: "(x::nat) AND 15 = x mod 16"
  using and_mask_nat [of x 4] by (simp add: mask_eq_exp_minus_1)

lemma and_7: "(x::nat) AND 7 = x mod 8"
  using and_mask_nat [of x 3] by (simp add: mask_eq_exp_minus_1)

lemma or_128: "q < 64 \<Longrightarrow> 128 OR q = 128 + (q::nat)"
  using or_disjoint_nat [of q 6 2] by (simp add: push_bit_eq_mult)

lemma or_192: "q < 64 \<Longrightarrow> 192 OR q = 192 + (q::nat)"
  using or_disjoint_nat [of q 6 3] by (simp add: push_bit_eq_mult)

lemma or_224: "q < 32 \<Longrightarrow> 224 OR q = 224 + (q::nat)"
  using or_disjoint_nat [of q 5 7] by (simp add: push_bit_eq_mult)

lemma or_240: "q < 16 \<Longrightarrow> 240 OR q = 240 + (q::nat)"
  using or_disjoint_nat [of q 4 15] by (simp add: push_bit_eq_mult)

lemma enc_last: "unat (0x80 OR (ucast (u :: 'a::len word) AND 0x3f) :: byte) = 128 + unat u mod 64"
proof -
  have "unat (0x80 OR (ucast u AND 0x3f) :: byte) = 128 OR (take_bit 8 (unat u) AND 63)"
    by (simp add: unsigned_or_eq unsigned_and_eq unsigned_ucast_eq)
  also have "take_bit 8 (unat u) AND 63 = unat u mod 64"
    by (simp add: and_63 take_bit_nat_def mod_mod_cancel)
  finally show ?thesis
    by (simp add: or_128)
qed


lemma and_push_bit_nat: "(x::nat) AND push_bit n m = push_bit n (drop_bit n x AND m)"
  by (rule bit_eqI) (auto simp add: bit_simps)

lemma and_3: "(x::nat) AND 3 = x mod 4"
  using and_mask_nat [of x 2] by (simp add: mask_eq_exp_minus_1)

lemma and_192: "x < 256 \<Longrightarrow> (x::nat) AND 192 = 64 * (x div 64)"
proof -
  assume x: "x < 256"
  have "x AND 192 = push_bit 6 (drop_bit 6 x AND 3)"
    using and_push_bit_nat [of x 6 3] by simp
  also have "drop_bit 6 x AND 3 = x div 64"
    using x by (simp add: and_3 drop_bit_eq_div)
  finally show ?thesis by (simp add: push_bit_eq_mult)
qed

text \<open>The tests and the steps of the decoder, on the values of the bytes.\<close>

lemma isContinuationByte_nat: "isContinuationByte c \<longleftrightarrow> 128 \<le> unat c \<and> unat c < 192"
proof -
  have c: "unat c < 256" using unsigned_less [of c, where 'a = nat] by simp
  have "isContinuationByte c \<longleftrightarrow> unat c AND 192 = 128"
    by (simp add: isContinuationByte_def word_unat_eq_iff unsigned_and_eq)
  also have "\<dots> \<longleftrightarrow> unat c div 64 = 2"
    by (simp add: and_192 [OF c])
  also have "\<dots> \<longleftrightarrow> 128 \<le> unat c \<and> unat c < 192"
    by auto
  finally show ?thesis .
qed

lemma isSurrogate_nat: "isSurrogate uc \<longleftrightarrow> 0xd800 \<le> unat uc \<and> unat uc < 0xe000"
  using unsigned_less [of uc, where 'a = nat]
  by (auto simp add: isSurrogate_def word_less_nat_alt unat_sub_if')

lemma dec_first_32: "unat (ucast (b :: byte) AND 0x1f :: 32 word) = unat b mod 32"
  by (simp add: unsigned_and_eq unsigned_ucast_eq and_31 take_bit_nat_def mod_mod_cancel)

lemma dec_first_16: "unat (ucast (b :: byte) AND 0x0f :: 32 word) = unat b mod 16"
  by (simp add: unsigned_and_eq unsigned_ucast_eq and_15 take_bit_nat_def mod_mod_cancel)

lemma dec_first_8: "unat (ucast (b :: byte) AND 0x07 :: 32 word) = unat b mod 8"
  by (simp add: unsigned_and_eq unsigned_ucast_eq and_7 take_bit_nat_def mod_mod_cancel)

lemma unat_continuation:
  assumes "unat uc < 2 ^ 26"
  shows "unat (continuation uc c) = 64 * unat uc + unat c mod 64"
proof -
  have "unat (continuation uc c) = take_bit 32 (push_bit 6 (unat uc)) OR (take_bit 32 (unat c) AND 63)"
    by (simp add: continuation_def unsigned_or_eq unsigned_and_eq unsigned_ucast_eq unsigned_push_bit_eq)
  also have "take_bit 32 (push_bit 6 (unat uc)) = push_bit 6 (unat uc)"
    using assms by (simp add: take_bit_nat_eq_self push_bit_eq_mult)
  also have "take_bit 32 (unat c) AND 63 = unat c mod 64"
    by (simp add: and_63 take_bit_nat_def mod_mod_cancel)
  also have "push_bit 6 (unat uc) OR unat c mod 64 = push_bit 6 (unat uc) + unat c mod 64"
    by (rule or_disjoint_nat) simp
  finally show ?thesis by (simp add: push_bit_eq_mult)
qed



lemma mod_128_64: "r < 64 \<Longrightarrow> (128 + r) mod 64 = (r::nat)"
  using mod_mult_self3 [of 2 64 r] by simp

lemma mod_192_32: "q < 32 \<Longrightarrow> (192 + q) mod 32 = (q::nat)"
  using mod_mult_self3 [of 6 32 q] by simp

lemma mod_224_16: "p < 16 \<Longrightarrow> (224 + p) mod 16 = (p::nat)"
  using mod_mult_self3 [of 14 16 p] by simp

lemma mod_240_8: "t < 8 \<Longrightarrow> (240 + t) mod 8 = (t::nat)"
  using mod_mult_self3 [of 30 8 t] by simp

text \<open>
  The decoding of a sequence of two, three and four bytes, given the values of its bytes.
\<close>

lemma fromUtf8_char_2:
  assumes b1: "unat b1 = 192 + q" and q: "2 \<le> q" "q < 32"
    and b2: "unat b2 = 128 + r" and r: "r < 64"
  shows "fromUtf8_char b1 (b2 # src) = Some ([of_nat (64 * q + r)], 2)"
proof -
  have c1: "\<not> b1 < 0x80" "\<not> b1 \<le> 0xc1" "\<not> 0xf5 \<le> b1" "b1 < 0xe0"
    using b1 q by (simp_all add: word_less_nat_alt word_le_nat_alt)
  have cont: "isContinuationByte b2"
    using b2 r by (simp add: isContinuationByte_nat)
  have u0: "unat (ucast b1 AND 0x1f :: 32 word) = q"
    using b1 q by (simp add: dec_first_32 mod_192_32)
  have m2: "unat b2 mod 64 = r"
    using b2 r by (simp add: mod_128_64)
  have uc: "unat (continuation (ucast b1 AND 0x1f) b2) = 64 * q + r"
    using q by (subst unat_continuation) (simp_all add: u0 m2)
  have c2: "\<not> continuation (ucast b1 AND 0x1f) b2 < 0x80"
      "\<not> isSurrogate (continuation (ucast b1 AND 0x1f) b2)"
      "\<not> 0x10ffff < continuation (ucast b1 AND 0x1f) b2"
      "\<not> 0x10000 \<le> continuation (ucast b1 AND 0x1f) b2"
    using q r by (simp_all add: word_less_nat_alt word_le_nat_alt isSurrogate_nat uc)
  have res: "(ucast (continuation (ucast b1 AND 0x1f) b2) :: 16 word) = of_nat (64 * q + r)"
    unfolding uc [symmetric] by (simp add: of_nat_unat)
  show ?thesis
    using c1 c2 cont by (simp add: fromUtf8_char_def Let_def res)
qed


lemma fromUtf8_char_3:
  assumes b1: "unat b1 = 224 + p" and p: "p < 16"
    and b2: "unat b2 = 128 + q" and q: "q < 64"
    and b3: "unat b3 = 128 + r" and r: "r < 64"
    and v: "0x800 \<le> 4096 * p + 64 * q + r"
      "\<not> (0xd800 \<le> 4096 * p + 64 * q + r \<and> 4096 * p + 64 * q + r < 0xe000)"
  shows "fromUtf8_char b1 (b2 # b3 # src) = Some ([of_nat (4096 * p + 64 * q + r)], 3)"
proof -
  let ?uc = "continuation (continuation (ucast b1 AND 0x0f) b2) b3"
  have c1: "\<not> b1 < 0x80" "\<not> b1 \<le> 0xc1" "\<not> 0xf5 \<le> b1" "\<not> b1 < 0xe0" "b1 < 0xf0"
    using b1 p by (simp_all add: word_less_nat_alt word_le_nat_alt)
  have cont: "isContinuationByte b2" "isContinuationByte b3"
    using b2 q b3 r by (simp_all add: isContinuationByte_nat)
  have u0: "unat (ucast b1 AND 0x0f :: 32 word) = p"
    using b1 p by (simp add: dec_first_16 mod_224_16)
  have m: "unat b2 mod 64 = q" "unat b3 mod 64 = r"
    using b2 b3 q r by (simp_all add: mod_128_64)
  have u1: "unat (continuation (ucast b1 AND 0x0f) b2) = 64 * p + q"
    using p by (subst unat_continuation) (simp_all add: u0 m)
  have uc: "unat ?uc = 4096 * p + 64 * q + r"
    using p q by (subst unat_continuation) (simp_all add: u1 m)
  have c2: "\<not> ?uc < 0x800" "\<not> isSurrogate ?uc" "\<not> 0x10ffff < ?uc" "\<not> 0x10000 \<le> ?uc"
    using p q r v by (simp_all add: word_less_nat_alt word_le_nat_alt isSurrogate_nat uc)
  have res: "(ucast ?uc :: 16 word) = of_nat (4096 * p + 64 * q + r)"
    unfolding uc [symmetric] by (simp add: of_nat_unat)
  show ?thesis
    using c1 c2 cont by (simp add: fromUtf8_char_def Let_def res)
qed

lemma fromUtf8_char_4:
  assumes b1: "unat b1 = 240 + t" and t: "t < 5"
    and b2: "unat b2 = 128 + p" and p: "p < 64"
    and b3: "unat b3 = 128 + q" and q: "q < 64"
    and b4: "unat b4 = 128 + r" and r: "r < 64"
    and v: "v = 262144 * t + 4096 * p + 64 * q + r" "0x10000 \<le> v" "v \<le> 0x10ffff"
  shows "fromUtf8_char b1 (b2 # b3 # b4 # src)
       = Some ([highSurrogate (of_nat v), lowSurrogate (of_nat v)], 4)"
proof -
  define uc where "uc = continuation (continuation (continuation (ucast b1 AND 0x07) b2) b3) b4"
  have c1: "\<not> b1 < 0x80" "\<not> b1 \<le> 0xc1" "\<not> 0xf5 \<le> b1" "\<not> b1 < 0xe0" "\<not> b1 < 0xf0"
    using b1 t by (simp_all add: word_less_nat_alt word_le_nat_alt)
  have cont: "isContinuationByte b2" "isContinuationByte b3" "isContinuationByte b4"
    using b2 p b3 q b4 r by (simp_all add: isContinuationByte_nat)
  have u0: "unat (ucast b1 AND 0x07 :: 32 word) = t"
    using b1 t by (simp add: dec_first_8 mod_240_8)
  have m: "unat b2 mod 64 = p" "unat b3 mod 64 = q" "unat b4 mod 64 = r"
    using b2 b3 b4 p q r by (simp_all add: mod_128_64)
  have u1: "unat (continuation (ucast b1 AND 0x07) b2) = 64 * t + p"
    using t by (subst unat_continuation) (simp_all add: u0 m)
  have u2: "unat (continuation (continuation (ucast b1 AND 0x07) b2) b3) = 4096 * t + 64 * p + q"
    using t p by (subst unat_continuation) (simp_all add: u1 m)
  have uc: "unat uc = v"
    unfolding uc_def v(1) using t p q by (subst unat_continuation) (simp_all add: u2 m)
  have c2: "\<not> uc < 0x10000" "\<not> isSurrogate uc" "\<not> 0x10ffff < uc" "0x10000 \<le> uc"
    using v(2,3) by (simp_all add: word_less_nat_alt word_le_nat_alt isSurrogate_nat uc)
  have res: "of_nat v = uc"
    unfolding uc [symmetric] by (simp add: of_nat_unat)
  have "fromUtf8_char b1 (b2 # b3 # b4 # src) = Some ([highSurrogate uc, lowSurrogate uc], 4)"
    using c1 c2 cont unfolding uc_def by (simp add: fromUtf8_char_def Let_def)
  then show ?thesis
    by (simp only: res)
qed


text \<open>The values of the bytes that the encoder writes.\<close>

lemma unat_16: "unat (u :: 16 word) < 65536"
  using unsigned_less [of u, where 'a = nat] by simp

lemma unat_ucast_16_32: "unat (ucast (u :: 16 word) :: 32 word) = unat u"
  using unat_16 [of u] by (simp add: unsigned_ucast_eq take_bit_nat_eq_self)

lemma enc2_first:
  assumes "unat (u :: 16 word) < 2048"
  shows "unat (0xc0 OR ucast (drop_bit 6 u) :: byte) = 192 + unat u div 64"
proof -
  from assms have d: "unat u div 64 < 32" by simp
  have "unat (0xc0 OR ucast (drop_bit 6 u) :: byte) = 192 OR take_bit 8 (drop_bit 6 (unat u))"
    by (simp only: unsigned_or_eq unsigned_ucast_eq unat_drop_bit_eq) simp
  also from d have "take_bit 8 (drop_bit 6 (unat u)) = unat u div 64"
    by (simp add: take_bit_nat_eq_self drop_bit_eq_div)
  finally show ?thesis
    using d by (simp add: or_192)
qed

lemma enc3_first: "unat (0xe0 OR ucast (drop_bit 12 (u :: 16 word)) :: byte) = 224 + unat u div 4096"
proof -
  from unat_16 [of u] have d: "unat u div 4096 < 16" by simp
  have "unat (0xe0 OR ucast (drop_bit 12 u) :: byte) = 224 OR take_bit 8 (drop_bit 12 (unat u))"
    by (simp only: unsigned_or_eq unsigned_ucast_eq unat_drop_bit_eq) simp
  also from d have "take_bit 8 (drop_bit 12 (unat u)) = unat u div 4096"
    by (simp add: take_bit_nat_eq_self drop_bit_eq_div)
  finally show ?thesis
    using d by (simp add: or_224)
qed

lemma enc_middle:
  "unat (0x80 OR (ucast (drop_bit n (u :: 'a::len word)) AND 0x3f) :: byte)
     = 128 + (unat u div 2 ^ n) mod 64"
  by (subst enc_last, subst unat_drop_bit_eq, subst drop_bit_eq_div, rule refl)

lemma decompose2: "(x::nat) = 64 * (x div 64) + x mod 64"
  by simp

lemma decompose3: "(x::nat) = 4096 * (x div 4096) + 64 * (x div 64 mod 64) + x mod 64"
proof -
  define a where "a = x div 64"
  define b where "b = x div 4096"
  have "x = 64 * a + x mod 64" by (simp add: a_def)
  moreover have "a = 64 * (a div 64) + a mod 64" by simp
  moreover have "a div 64 = b" by (simp add: a_def b_def div_mult2_eq)
  ultimately have "x = 64 * (64 * b + a mod 64) + x mod 64" by simp
  then show ?thesis by (simp add: a_def b_def)
qed

lemma decompose4:
  "(x::nat) = 262144 * (x div 262144) + 4096 * (x div 4096 mod 64) + 64 * (x div 64 mod 64) + x mod 64"
proof -
  define a where "a = x div 4096"
  define c where "c = x div 262144"
  have e: "a div 64 = c" by (simp add: a_def c_def div_mult2_eq)
  have "64 * (a div 64) + a mod 64 = a" by simp
  then have "64 * c + a mod 64 = a" unfolding e .
  moreover have "x = 4096 * a + 64 * (x div 64 mod 64) + x mod 64"
    unfolding a_def by (rule decompose3)
  ultimately have "x = 4096 * (64 * c + a mod 64) + 64 * (x div 64 mod 64) + x mod 64"
    by simp
  then show ?thesis by (simp add: a_def c_def)
qed


text \<open>The decoder reads back what the encoder wrote for a code unit or a surrogate pair.\<close>

lemma of_nat_unat_16: "of_nat (unat (u :: 16 word)) = u"
  by (simp add: of_nat_unat)

lemma decode_two_bytes:
  assumes "\<not> u < 0x80" and "(u :: 16 word) < 0x800"
  shows "fromUtf8_char (0xc0 OR ucast (drop_bit 6 u)) ((0x80 OR (ucast u AND 0x3f)) # src)
       = Some ([u], 2)"
proof -
  from assms have u: "128 \<le> unat u" "unat u < 2048"
    by (simp_all add: word_less_nat_alt)
  then have q: "2 \<le> unat u div 64" "unat u div 64 < 32"
    by simp_all
  have "fromUtf8_char (0xc0 OR ucast (drop_bit 6 u)) ((0x80 OR (ucast u AND 0x3f)) # src)
      = Some ([of_nat (64 * (unat u div 64) + unat u mod 64)], 2)"
    using enc2_first [OF u(2)] q enc_last [of u] by (rule fromUtf8_char_2) simp
  then show ?thesis
    by (simp add: of_nat_unat_16)
qed

lemma decode_three_bytes:
  assumes "\<not> (u :: 16 word) < 0x800" and "\<not> isSurrogate (ucast u)"
  shows "fromUtf8_char (0xe0 OR ucast (drop_bit 12 u))
           ((0x80 OR (ucast (drop_bit 6 u) AND 0x3f)) # (0x80 OR (ucast u AND 0x3f)) # src)
       = Some ([u], 3)"
proof -
  from assms have u: "0x800 \<le> unat u" "\<not> (0xd800 \<le> unat u \<and> unat u < 0xe000)"
    by (simp_all add: word_less_nat_alt isSurrogate_nat unat_ucast_16_32)
  have p: "unat u div 4096 < 16"
    using unat_16 [of u] by simp
  have m: "unat (0x80 OR (ucast (drop_bit 6 u) AND 0x3f) :: byte) = 128 + unat u div 64 mod 64"
    using enc_middle [of 6 u] by simp
  have d: "4096 * (unat u div 4096) + 64 * (unat u div 64 mod 64) + unat u mod 64 = unat u"
    by (rule decompose3 [symmetric])
  have "fromUtf8_char (0xe0 OR ucast (drop_bit 12 u))
           ((0x80 OR (ucast (drop_bit 6 u) AND 0x3f)) # (0x80 OR (ucast u AND 0x3f)) # src)
      = Some ([of_nat (4096 * (unat u div 4096) + 64 * (unat u div 64 mod 64) + unat u mod 64)], 3)"
    using enc3_first [of u] p m _ enc_last [of u]
    by (rule fromUtf8_char_3) (simp_all only: d u, simp_all)
  then show ?thesis
    by (simp only: d of_nat_unat_16)
qed


lemma and_fffffc00: "x < 4294967296 \<Longrightarrow> (x::nat) AND 4294966272 = 1024 * (x div 1024)"
proof -
  assume x: "x < 4294967296"
  then have d: "x div 1024 < 4194304" by simp
  have "x AND 4294966272 = push_bit 10 (drop_bit 10 x AND 4194303)"
    using and_push_bit_nat [of x 10 4194303] by simp
  also have "drop_bit 10 x AND 4194303 = x div 1024"
    using and_mask_nat [of "x div 1024" 22] d by (simp add: mask_eq_exp_minus_1 drop_bit_eq_div)
  finally show ?thesis by (simp add: push_bit_eq_mult)
qed

lemma isHighSurrogate_nat:
  "isHighSurrogate (ucast (u :: 16 word)) \<longleftrightarrow> 0xd800 \<le> unat u \<and> unat u < 0xdc00"
proof -
  have x: "unat u < 4294967296" using unat_16 [of u] by simp
  have "isHighSurrogate (ucast u) \<longleftrightarrow> unat u AND 4294966272 = 0xd800"
    by (simp add: isHighSurrogate_def word_unat_eq_iff unsigned_and_eq unat_ucast_16_32)
  also have "\<dots> \<longleftrightarrow> unat u div 1024 = 54"
    by (simp add: and_fffffc00 [OF x])
  also have "\<dots> \<longleftrightarrow> 0xd800 \<le> unat u \<and> unat u < 0xdc00"
    by auto
  finally show ?thesis .
qed

lemma isLowSurrogate_nat:
  "isLowSurrogate (ucast (u :: 16 word)) \<longleftrightarrow> 0xdc00 \<le> unat u \<and> unat u < 0xe000"
proof -
  have x: "unat u < 4294967296" using unat_16 [of u] by simp
  have "isLowSurrogate (ucast u) \<longleftrightarrow> unat u AND 4294966272 = 0xdc00"
    by (simp add: isLowSurrogate_def word_unat_eq_iff unsigned_and_eq unat_ucast_16_32)
  also have "\<dots> \<longleftrightarrow> unat u div 1024 = 55"
    by (simp add: and_fffffc00 [OF x])
  also have "\<dots> \<longleftrightarrow> 0xdc00 \<le> unat u \<and> unat u < 0xe000"
    by auto
  finally show ?thesis .
qed

lemma unat_surrogateToUcs4:
  assumes "0xd800 \<le> unat u" "unat u < 0xdc00" "0xdc00 \<le> unat low" "unat low < 0xe000"
  shows "unat (surrogateToUcs4 u low) = 1024 * (64 + (unat u - 0xd800)) + (unat low - 0xdc00)"
proof -
  have "unat (push_bit 10 (ucast u) :: 32 word) = take_bit LENGTH(32) (push_bit 10 (unat u))"
    by (simp only: unsigned_push_bit_eq unat_ucast_16_32)
  also have "\<dots> = 1024 * unat u"
    using unat_16 [of u] by (simp add: take_bit_nat_eq_self push_bit_eq_mult)
  finally have a: "unat (push_bit 10 (ucast u) :: 32 word) = 1024 * unat u" .
  have b: "unat (push_bit 10 (ucast u) + ucast low :: 32 word) = 1024 * unat u + unat low"
    using unat_16 [of u] unat_16 [of low]
    by (subst unat_add_lem [THEN iffD1]) (simp_all add: a unat_ucast_16_32)
  have c: "(0x35fdc00 :: 32 word) \<le> push_bit 10 (ucast u) + ucast low"
    using assms by (simp add: word_le_nat_alt b)
  have "unat (surrogateToUcs4 u low) = 1024 * unat u + unat low - 0x35fdc00"
    unfolding surrogateToUcs4_def by (subst unat_sub [OF c]) (simp add: b)
  with assms show ?thesis
    by simp
qed

lemma div_1024: "l < 1024 \<Longrightarrow> (1024 * k + l) div 1024 = (k::nat)"
  by simp

lemma mod_1024: "l < 1024 \<Longrightarrow> (1024 * k + l) mod 1024 = (l::nat)"
  by simp

lemma div_mod_65536: "(x::nat) mod 65536 div 64 mod 64 = x div 64 mod 64"
proof -
  have "x mod (64 * 1024) = 64 * (x div 64 mod 1024) + x mod 64"
    by (rule mod_mult2_eq)
  then have "x mod 65536 div 64 = x div 64 mod 1024"
    by simp
  then show ?thesis
    by (simp add: mod_mod_cancel)
qed


lemma of_nat_unat_32: "of_nat (unat (u :: 32 word)) = u"
  by (simp add: of_nat_unat)

lemma decode_surrogate_pair:
  assumes "isHighSurrogate (ucast (u :: 16 word))" and "isLowSurrogate (ucast (low :: 16 word))"
    and "ucs4 = surrogateToUcs4 u low"
  shows "fromUtf8_char (0xf0 OR (ucast (drop_bit 18 ucs4) AND 0xf))
           ((0x80 OR (ucast (drop_bit 12 ucs4) AND 0x3f))
            # (0x80 OR (ucast (drop_bit 6 (ucast ucs4 :: 16 word)) AND 0x3f))
            # (0x80 OR (ucast ucs4 AND 0x3f)) # src)
       = Some ([u, low], 4)"
proof -
  define v where "v = unat ucs4"
  define h where "h = unat u - 0xd800"
  define l where "l = unat low - 0xdc00"
  from assms(1,2) have s: "0xd800 \<le> unat u" "unat u < 0xdc00" "0xdc00 \<le> unat low" "unat low < 0xe000"
    by (simp_all add: isHighSurrogate_nat isLowSurrogate_nat)
  then have hl: "h < 1024" "l < 1024" "unat u = h + 0xd800" "unat low = l + 0xdc00"
    by (simp_all add: h_def l_def)
  have v: "v = 1024 * (64 + h) + l"
    unfolding v_def h_def l_def assms(3) using s by (rule unat_surrogateToUcs4)
  with hl have range: "0x10000 \<le> v" "v \<le> 0x10ffff"
    by simp_all
  have dv: "v div 1024 = 64 + h" and mv: "v mod 1024 = l"
    unfolding v using hl(2) by (rule div_1024, rule mod_1024)
  have t: "v div 262144 < 5"
    using range by simp
  have "unat (0xf0 OR (ucast (drop_bit 18 ucs4) AND 0xf) :: byte)
      = 240 OR (take_bit 8 (drop_bit 18 v) AND 15)"
    unfolding v_def by (simp only: unsigned_or_eq unsigned_and_eq unsigned_ucast_eq unat_drop_bit_eq) simp
  also have "take_bit 8 (drop_bit 18 v) AND 15 = v div 262144"
    using t by (simp add: and_15 drop_bit_eq_div take_bit_nat_eq_self)
  finally have b1: "unat (0xf0 OR (ucast (drop_bit 18 ucs4) AND 0xf) :: byte) = 240 + v div 262144"
    using t by (simp add: or_240)
  have b2: "unat (0x80 OR (ucast (drop_bit 12 ucs4) AND 0x3f) :: byte) = 128 + v div 4096 mod 64"
    using enc_middle [of 12 ucs4] by (simp add: v_def)
  have "unat (ucast ucs4 :: 16 word) = v mod 65536"
    by (simp add: v_def unsigned_ucast_eq take_bit_nat_def)
  with enc_middle [of 6 "ucast ucs4 :: 16 word"]
  have b3: "unat (0x80 OR (ucast (drop_bit 6 (ucast ucs4 :: 16 word)) AND 0x3f) :: byte)
      = 128 + v div 64 mod 64"
    by (simp add: div_mod_65536)
  have b4: "unat (0x80 OR (ucast ucs4 AND 0x3f) :: byte) = 128 + v mod 64"
    using enc_last [of ucs4] by (simp add: v_def)
  have "fromUtf8_char (0xf0 OR (ucast (drop_bit 18 ucs4) AND 0xf))
           ((0x80 OR (ucast (drop_bit 12 ucs4) AND 0x3f))
            # (0x80 OR (ucast (drop_bit 6 (ucast ucs4 :: 16 word)) AND 0x3f))
            # (0x80 OR (ucast ucs4 AND 0x3f)) # src)
      = Some ([highSurrogate (of_nat v), lowSurrogate (of_nat v)], 4)"
    using b1 t b2 _ b3 _ b4 _ decompose4 [of v] range
    by (rule fromUtf8_char_4) simp_all
  moreover have w: "of_nat v = ucs4"
    unfolding v_def by (rule of_nat_unat_32)
  moreover have "highSurrogate ucs4 = u"
  proof -
    have d: "unat (drop_bit 10 ucs4) = v div 1024"
      by (subst unat_drop_bit_eq) (simp add: drop_bit_eq_div v_def)
    have "unat (drop_bit 10 ucs4 + 0xd7c0) = v div 1024 + 0xd7c0"
      using range
      by (subst unat_add_lem [THEN iffD1]) (simp_all add: d)
    then have "unat (highSurrogate ucs4) = unat u"
      using hl by (simp add: highSurrogate_def unsigned_ucast_eq take_bit_nat_eq_self dv)
    then show ?thesis
      by (simp add: word_unat_eq_iff)
  qed
  moreover have "lowSurrogate ucs4 = low"
  proof -
    have "unat (ucs4 mod 0x400 + 0xdc00) = v mod 1024 + 0xdc00"
      using mod_less_divisor [of 1024 v]
      by (subst unat_add_lem [THEN iffD1])
         (simp_all add: unat_mod flip: v_def)
    then have "unat (lowSurrogate ucs4) = unat low"
      using hl by (simp add: lowSurrogate_def unsigned_ucast_eq take_bit_nat_eq_self mv)
    then show ?thesis
      by (simp add: word_unat_eq_iff)
  qed
  ultimately show ?thesis
    by simp
qed


text \<open>On a valid string the decoder undoes the encoder.\<close>

lemma small_not_surrogate: "(u :: 16 word) < 0x800 \<Longrightarrow> \<not> isSurrogate (ucast u)"
  by (simp add: isSurrogate_nat unat_ucast_16_32 word_less_nat_alt)

lemma convertToUnicode_toUtf8: "isValidUtf16 s \<Longrightarrow> convertToUnicode (toUtf8 s) = s"
proof (induction s rule: toUtf8.induct)
  case 1
  then show ?case by simp
next
  case (2 u src)
  show ?case
  proof (cases "u < 0x80")
    case True
    then have "u < 0x800" by (simp add: word_less_nat_alt)
    then have "\<not> isSurrogate (ucast u)" by (rule small_not_surrogate)
    with 2 True show ?thesis
      by (simp add: fromUtf8_char_ascii ascii_byte ascii_back)
  next
    case a: False
    show ?thesis
    proof (cases "u < 0x800")
      case True
      then have "\<not> isSurrogate (ucast u)" by (rule small_not_surrogate)
      with 2 a True show ?thesis
        by (simp add: decode_two_bytes)
    next
      case b: False
      show ?thesis
      proof (cases "isSurrogate (ucast u)")
        case False
        with 2 a b show ?thesis
          by (simp add: decode_three_bytes)
      next
        case True
        with "2.prems" obtain low rest where src: "src = low # rest"
          and hi: "isHighSurrogate (ucast u)" and lo: "isLowSurrogate (ucast low)"
          and v: "isValidUtf16 rest"
          by (cases src) auto
        from a b True src hi lo v have "convertToUnicode (toUtf8 rest) = rest"
          by (intro "2.IH"(4)) simp_all
        with a b True src hi lo show ?thesis
          by (simp add: Let_def decode_surrogate_pair)
      qed
    qed
  qed
qed


lemma bom_decoded: "convertToUnicode (0xef # 0xbb # 0xbf # bs) = 0xfeff # convertToUnicode bs"
proof -
  have "fromUtf8_char 0xef (0xbb # 0xbf # bs) = Some ([of_nat (4096 * 15 + 64 * 59 + 63)], 3)"
    by (rule fromUtf8_char_3) simp_all
  then show ?thesis
    by simp
qed

lemma toUtf8_not_surrogate:
  "\<not> isSurrogate (ucast u) \<Longrightarrow> toUtf8 (u # src) = toUtf8 [u] @ toUtf8 src"
  by simp

lemma toUtf8_bom: "toUtf8 (0xfeff # src) = 0xef # 0xbb # 0xbf # toUtf8 src"
proof -
  have "\<not> isSurrogate (ucast (0xfeff :: 16 word))"
    by (simp add: isSurrogate_nat unat_ucast_16_32)
  then have "toUtf8 (0xfeff # src) = toUtf8 [0xfeff] @ toUtf8 src"
    by (rule toUtf8_not_surrogate)
  also have "toUtf8 [0xfeff] = [0xef, 0xbb, 0xbf]"
    by code_simp
  finally show ?thesis
    by simp
qed

text \<open>What comes back from the UTF-8 form of a valid string: the string, less a leading U+FEFF.\<close>

lemma fromUtf8_toUtf8:
  assumes "isValidUtf16 s"
  shows "fromUtf8 (toUtf8 s) = (if s \<noteq> [] \<and> hd s = 0xfeff then tl s else s)"
proof (cases "3 \<le> length (toUtf8 s) \<and> take 3 (toUtf8 s) = [0xef, 0xbb, 0xbf]")
  case True
  then have "toUtf8 s = 0xef # 0xbb # 0xbf # drop 3 (toUtf8 s)"
    by (metis append_take_drop_id append_Cons append_Nil)
  then have "convertToUnicode (toUtf8 s) = 0xfeff # convertToUnicode (drop 3 (toUtf8 s))"
    by (metis bom_decoded)
  with assms have s: "s = 0xfeff # convertToUnicode (drop 3 (toUtf8 s))"
    by (simp add: convertToUnicode_toUtf8)
  then obtain r where r: "s = 0xfeff # r"
    by blast
  with assms have "isValidUtf16 r"
    by (simp add: isSurrogate_nat unat_ucast_16_32)
  then have "convertToUnicode (toUtf8 r) = r"
    by (rule convertToUnicode_toUtf8)
  then show ?thesis
    unfolding r by (simp add: fromUtf8_def toUtf8_bom del: toUtf8.simps)
next
  case False
  then have "fromUtf8 (toUtf8 s) = convertToUnicode (toUtf8 s)"
    unfolding fromUtf8_def by (rule if_not_P)
  also from assms have "\<dots> = s"
    by (rule convertToUnicode_toUtf8)
  finally have e: "fromUtf8 (toUtf8 s) = s" .
  have n: "\<not> (s \<noteq> [] \<and> hd s = 0xfeff)"
  proof
    assume "s \<noteq> [] \<and> hd s = 0xfeff"
    then obtain r where "s = 0xfeff # r"
      by (cases s) auto
    then have "toUtf8 s = 0xef # 0xbb # 0xbf # toUtf8 r"
      by (simp only: toUtf8_bom)
    with False show False
      by simp
  qed
  show ?thesis
    unfolding e using n by (rule if_not_P [symmetric])
qed

subsection \<open>Padding, CBC, and decrypting what encrypt returns\<close>

declare cbc_encrypt.simps [simp del] cbc_decrypt.simps [simp del]

lemma length_pkcs7_pad: "length (pkcs7_pad m) mod 16 = 0" "16 \<le> length (pkcs7_pad m)"
proof -
  have e: "length (pkcs7_pad m) = length m + (16 - length m mod 16)"
    by (simp add: pkcs7_pad_def Let_def)
  have "length m = 16 * (length m div 16) + length m mod 16"
    by simp
  then have "length (pkcs7_pad m) = 16 * (length m div 16) + 16"
    unfolding e using mod_less_divisor [of 16 "length m"] by linarith
  then show "length (pkcs7_pad m) mod 16 = 0" "16 \<le> length (pkcs7_pad m)"
    by simp_all
qed

lemma pkcs7_unpad_pad [simp]: "pkcs7_unpad (pkcs7_pad m) = Some m"
proof -
  define n where "n = 16 - length m mod 16"
  have n: "0 < n" "n \<le> 16"
    unfolding n_def using mod_less_divisor [of 16 "length m"] by linarith+
  have p: "pkcs7_pad m = m @ replicate n (of_nat n)"
    by (simp add: pkcs7_pad_def n_def)
  from n have l: "last (pkcs7_pad m) = of_nat n"
    unfolding p by (cases n) simp_all
  from n have u: "unat (of_nat n :: byte) = n"
    by (simp add: unat_small)
  show ?thesis
    using n unfolding pkcs7_unpad_def l u Let_def
    by (simp add: p list_all_iff)
qed

lemma length_aes256_encrypt_block [simp]: "length (aes256_encrypt_block key b) = 16"
  by (simp add: aes256_encrypt_block_def)

lemma aes256_decrypt_encrypt:
  "length b = 16 \<Longrightarrow> aes256_decrypt_block key (aes256_encrypt_block key b) = b"
  by (simp add: aes256_decrypt_block_def aes256_encrypt_block_def aes_inv_cipher_cipher)

lemma length_xor_bytes [simp]: "length (xor_bytes a b) = min (length a) (length b)"
  by (simp add: xor_bytes_def)

lemma xor_bytes_twice:
  "length a = length b \<Longrightarrow> xor_bytes (xor_bytes a b) b = a"
  unfolding xor_bytes_def
  by (induction a b rule: list_induct2) (simp_all add: xor.assoc)

lemma mod16_minus: "\<not> n < 16 \<Longrightarrow> n mod 16 = 0 \<Longrightarrow> (n - 16) mod 16 = (0::nat)"
  using le_mod_geq [of 16 n] by simp

lemma mod16_ge: "n mod 16 = 0 \<Longrightarrow> n \<noteq> 0 \<Longrightarrow> 16 \<le> (n::nat)"
proof (rule ccontr)
  assume a: "n mod 16 = 0" "n \<noteq> 0" and "\<not> 16 \<le> n"
  then have "n mod 16 = n" by simp
  with a show False by simp
qed

lemma length_cbc_encrypt:
  "length m mod 16 = 0 \<Longrightarrow> length (cbc_encrypt key prev m) = length m"
proof (induction key prev m rule: cbc_encrypt.induct)
  case (1 key prev m)
  show ?case
  proof (cases "length m < 16")
    case True
    with 1(2) show ?thesis
      by (subst cbc_encrypt.simps) simp
  next
    case False
    then have "length (drop 16 m) mod 16 = 0"
      using 1(2) by (simp add: mod16_minus)
    with False 1(1) show ?thesis
      by (simp add: cbc_encrypt.simps [of key prev m] Let_def)
  qed
qed

text \<open>Decrypting under another initial vector: only the first block is affected.\<close>

lemma cbc_decrypt_encrypt:
  assumes "length iv1 = 16" and "length iv2 = 16" and "length m mod 16 = 0"
  shows "cbc_decrypt key iv2 (cbc_encrypt key iv1 m)
       = xor_bytes (xor_bytes (take 16 m) iv1) iv2 @ drop 16 m"
  using assms
proof (induction key iv1 m arbitrary: iv2 rule: cbc_encrypt.induct)
  case (1 key prev m)
  show ?case
  proof (cases "length m < 16")
    case True
    with 1(4) have "m = []" by simp
    then show ?thesis
      by (simp add: cbc_encrypt.simps [of key prev "[]"] cbc_decrypt.simps [of key iv2 "[]"]
          xor_bytes_def)
  next
    case False
    let ?x = "xor_bytes (take 16 m) prev"
    let ?c = "aes256_encrypt_block key ?x"
    from False 1(2) have lx: "length ?x = 16" by simp
    from False 1(4) have r: "length (drop 16 m) mod 16 = 0"
      by (simp add: mod16_minus)
    have e: "cbc_encrypt key prev m = ?c @ cbc_encrypt key ?c (drop 16 m)"
      using False by (simp add: cbc_encrypt.simps [of key prev m] Let_def)
    have ih: "cbc_decrypt key ?c (cbc_encrypt key ?c (drop 16 m))
        = xor_bytes (xor_bytes (take 16 (drop 16 m)) ?c) ?c @ drop 16 (drop 16 m)"
      using False r by (intro 1(1)) simp_all
    have "xor_bytes (xor_bytes (take 16 (drop 16 m)) ?c) ?c @ drop 16 (drop 16 m) = drop 16 m"
    proof (cases "drop 16 m = []")
      case True
      then show ?thesis by (simp add: xor_bytes_def)
    next
      case False
      with r have "16 \<le> length (drop 16 m)"
        by (intro mod16_ge) simp_all
      then have "length (take 16 (drop 16 m)) = length ?c" by simp
      then have "xor_bytes (xor_bytes (take 16 (drop 16 m)) ?c) ?c = take 16 (drop 16 m)"
        by (rule xor_bytes_twice)
      then show ?thesis by (simp only: append_take_drop_id)
    qed
    with ih have rest: "cbc_decrypt key ?c (cbc_encrypt key ?c (drop 16 m)) = drop 16 m"
      by simp
    have "cbc_decrypt key iv2 (?c @ cbc_encrypt key ?c (drop 16 m))
        = xor_bytes (aes256_decrypt_block key ?c) iv2
            @ cbc_decrypt key ?c (cbc_encrypt key ?c (drop 16 m))"
      by (simp add: cbc_decrypt.simps [of key iv2 "?c @ cbc_encrypt key ?c (drop 16 m)"])
    then show ?thesis
      by (simp add: e rest aes256_decrypt_encrypt [OF lx])
  qed
qed


lemma pad_after_first_block:
  assumes "16 \<le> length u" and "length x = 16"
  shows "x @ drop 16 (pkcs7_pad u) = pkcs7_pad (x @ drop 16 u)"
  using assms by (simp add: pkcs7_pad_def Let_def)

lemma cbc_encrypt_not_empty: "16 \<le> length m \<Longrightarrow> cbc_encrypt key prev m \<noteq> []"
  by (subst cbc_encrypt.simps) (simp add: Let_def aes256_encrypt_block_def aes_cipher_def add_round_key_explicit)

text \<open>
  Decrypting, under any valid key material, what \<open>encrypt\<close> returned under any valid key
  material: the Base64 text decodes to the ciphertext, whose length is a positive multiple
  of the block size, so the padding test is the only test that can fail.
\<close>

lemma decrypt_encrypt_keys:
  assumes "valid_keys ks" and "valid_keys ks'" and "s \<noteq> []"
  shows "decrypt ks' (encrypt ks s)
       = (case pkcs7_unpad (cbc_decrypt (encryptionKey ks') (encryptionIv ks')
                 (cbc_encrypt (encryptionKey ks) (encryptionIv ks) (pkcs7_pad (toUtf8 s)))) of
            None \<Rightarrow> []
          | Some out \<Rightarrow> fromUtf8 out)"
proof -
  let ?p = "pkcs7_pad (toUtf8 s)"
  let ?c = "cbc_encrypt (encryptionKey ks) (encryptionIv ks) ?p"
  from assms(1,2) have k: "encryptionKey ks \<noteq> []" "encryptionIv ks \<noteq> []"
      "encryptionKey ks' \<noteq> []" "encryptionIv ks' \<noteq> []"
    by (auto simp add: valid_keys_def)
  have c: "?c \<noteq> []"
    by (rule cbc_encrypt_not_empty) (rule length_pkcs7_pad)
  have l: "length ?c mod 16 = 0"
    by (simp add: length_cbc_encrypt length_pkcs7_pad)
  have e: "encrypt ks s = toBase64 ?c"
    using assms(3) k by (simp add: encrypt_def)
  have "decrypt ks' (toBase64 ?c)
      = (case pkcs7_unpad (cbc_decrypt (encryptionKey ks') (encryptionIv ks') ?c) of
           None \<Rightarrow> [] | Some out \<Rightarrow> fromUtf8 out)"
    using k c l by (simp add: decrypt_def fromBase64_toBase64 toBase64_empty_iff)
  then show ?thesis by (simp only: e)
qed

text \<open>The same key and a possibly different initial vector.\<close>

lemma decrypt_encrypt_general:
  assumes "length K = 32" and "length iv1 = 16" and "length iv2 = 16" and "s \<noteq> []"
  shows "decrypt \<lparr>encryptionKey = K, encryptionIv = iv2\<rparr>
           (encrypt \<lparr>encryptionKey = K, encryptionIv = iv1\<rparr> s)
       = (case pkcs7_unpad (xor_bytes (xor_bytes (take 16 (pkcs7_pad (toUtf8 s))) iv1) iv2
                              @ drop 16 (pkcs7_pad (toUtf8 s))) of
            None \<Rightarrow> []
          | Some out \<Rightarrow> fromUtf8 out)"
proof -
  let ?p = "pkcs7_pad (toUtf8 s)"
  have v: "valid_keys \<lparr>encryptionKey = K, encryptionIv = iv1\<rparr>"
      "valid_keys \<lparr>encryptionKey = K, encryptionIv = iv2\<rparr>"
    using assms(1-3) by (simp_all add: valid_keys_def)
  have "cbc_decrypt K iv2 (cbc_encrypt K iv1 ?p)
      = xor_bytes (xor_bytes (take 16 ?p) iv1) iv2 @ drop 16 ?p"
    using assms(2,3) by (intro cbc_decrypt_encrypt) (simp_all add: length_pkcs7_pad)
  with decrypt_encrypt_keys [OF v assms(4)] show ?thesis
    by simp
qed

lemma decrypt_encrypt_same_keys:
  assumes "valid_keys ks"
  shows "decrypt ks (encrypt ks s) = fromUtf8 (toUtf8 s)"
proof (cases "s = []")
  case True
  then show ?thesis by (simp add: encrypt_def decrypt_def)
next
  case False
  let ?p = "pkcs7_pad (toUtf8 s)"
  from assms have v: "length (encryptionKey ks) = 32" "length (encryptionIv ks) = 16"
    by (simp_all add: valid_keys_def)
  have ks: "ks = \<lparr>encryptionKey = encryptionKey ks, encryptionIv = encryptionIv ks\<rparr>"
    by simp
  have "length (take 16 ?p) = length (encryptionIv ks)"
    using length_pkcs7_pad(2) [of "toUtf8 s"] v by simp
  then have "xor_bytes (xor_bytes (take 16 ?p) (encryptionIv ks)) (encryptionIv ks) = take 16 ?p"
    by (rule xor_bytes_twice)
  then have "xor_bytes (xor_bytes (take 16 ?p) (encryptionIv ks)) (encryptionIv ks) @ drop 16 ?p = ?p"
    by (simp only: append_take_drop_id)
  with decrypt_encrypt_general [OF v(1) v(2) v(2) False] show ?thesis
    by (simp flip: ks)
qed

lemma decrypt_encrypt_other_iv:
  assumes "length K = 32" and "length iv1 = 16" and "length iv2 = 16"
    and "16 \<le> length (toUtf8 s)"
  shows "decrypt \<lparr>encryptionKey = K, encryptionIv = iv2\<rparr>
           (encrypt \<lparr>encryptionKey = K, encryptionIv = iv1\<rparr> s)
       = fromUtf8 (xor_bytes (xor_bytes (take 16 (toUtf8 s)) iv1) iv2 @ drop 16 (toUtf8 s))"
proof -
  let ?u = "toUtf8 s"
  let ?x = "xor_bytes (xor_bytes (take 16 ?u) iv1) iv2"
  note u = assms(4)
  then have ne: "s \<noteq> []"
    by auto
  from u assms(2,3) have x: "length ?x = 16" by simp
  from u have t: "take 16 (pkcs7_pad ?u) = take 16 ?u"
    by (simp add: pkcs7_pad_def Let_def)
  from decrypt_encrypt_general [OF assms(1-3) ne] show ?thesis
    unfolding t pad_after_first_block [OF u x] by simp
qed

lemma xor_byte_same: "(x XOR p) XOR q = x \<Longrightarrow> p = (q::byte)"
proof -
  assume "(x XOR p) XOR q = x"
  then have "x XOR ((x XOR p) XOR q) = x XOR x" by simp
  then have "p XOR q = 0" by (simp add: xor.assoc [symmetric])
  then have "p XOR (p XOR q) = p XOR 0" by simp
  then show ?thesis by (simp add: xor.assoc [symmetric])
qed

lemma length16_not_Nil: "length xs = 16 \<Longrightarrow> xs \<noteq> []"
  by auto

lemma xor_bytes_other:
  "length a = length i \<Longrightarrow> length i = length j \<Longrightarrow> xor_bytes (xor_bytes a i) j = a \<Longrightarrow> i = j"
proof (induction a i j rule: list_induct3)
  case Nil
  then show ?case by simp
next
  case (Cons x a p i q j)
  from Cons.prems have h: "(x XOR p) XOR q = x" and t: "xor_bytes (xor_bytes a i) j = a"
    by (simp_all add: xor_bytes_def)
  from h have "p = q" by (rule xor_byte_same)
  with Cons.IH [OF t] show ?case by simp
qed

subsection \<open>Rollback does not read the exemption flag\<close>

text \<open>
  For every critical item whose observed value differs from its previous value, on either
  platform, \<^verbatim>\<open>rollbackIfNeeded\<close> leaves the flag, the cached value and the previous value as
  they are, stores the observed value as the new value, writes the previous value to the
  external resource and emits \<^verbatim>\<open>rollbackPerformed\<close>; with the flag set it returns what it
  returns with the flag clear, flag apart.
\<close>

lemma rollbackIfNeeded_flag_not_read:
  assumes "m_isCritical key" and "getCurrentValue pf key \<noteq> m_previousValue key"
  shows "m_rollbackCancelled (fst (rollbackIfNeeded pf key db)) = m_rollbackCancelled key
       \<and> m_value (fst (rollbackIfNeeded pf key db)) = m_value key
       \<and> m_previousValue (fst (rollbackIfNeeded pf key db)) = m_previousValue key
       \<and> m_newValue (fst (rollbackIfNeeded pf key db)) = getCurrentValue pf key
       \<and> writes (m_qsettings (fst (rollbackIfNeeded pf key db)))
           = writes (m_qsettings key) @ [m_previousValue key]
       \<and> getCurrentValue pf (fst (rollbackIfNeeded pf key db))
           = (if writable (m_qsettings key) then m_previousValue key else getCurrentValue pf key)
       \<and> snd (snd (snd (rollbackIfNeeded pf key db))) = [RollbackPerformed (m_valueName key)]
       \<and> rollbackIfNeeded pf (key\<lparr>m_rollbackCancelled := True\<rparr>) db
           = (let r = rollbackIfNeeded pf (key\<lparr>m_rollbackCancelled := False\<rparr>) db
              in ((fst r)\<lparr>m_rollbackCancelled := True\<rparr>, snd r))"
  using assms
  by (cases pf)
     (simp_all add: rollbackIfNeeded_def restorePreviousValue_def Let_def setNewValue_def
        RegistryKey_getCurrentValue_def RegistryKey_readCurrentValue_def
        PlistFile_getCurrentValue_def QSettings_sync_def QSettings_setValue_def
        split: resource.splits)

section \<open>Properties\<close>

subsection \<open>Rollback and the exemption flag\<close>

text \<open>
  C1 at a failing input. The critical item \<^verbatim>\<open>DoubleClickSpeed\<close> (baseline 500, external
  value 100) has its exemption flag set, as \<^verbatim>\<open>cancelRollback\<close> leaves it. On either
  platform \<^verbatim>\<open>rollbackIfNeeded\<close> does not accept the diverging value and does not clear the
  flag: it writes 500 back, leaves the flag set and the cached value at 500, and emits
  \<^verbatim>\<open>rollbackPerformed\<close>. A tick on that item rolls back as well, after clearing the flag
  itself. The headers say of the flag that it ``skips one rollback cycle'', and of
  \<^verbatim>\<open>cancelRollback\<close> that it ``prevents the next detected change from triggering a restore''.
\<close>

theorem rollbackIfNeeded_restores_exempted_item:
  "fst (cancelRollback Windows ex_key) = ex_key\<lparr>m_rollbackCancelled := True\<rparr>
   \<and> rollbackIfNeeded Windows (ex_key\<lparr>m_rollbackCancelled := True\<rparr>) ex_database
     = (ex_key\<lparr>m_rollbackCancelled := True, m_newValue := ''100'',
          m_qsettings := \<lparr>resource = Val ''500'', writable = True, writes = [''500''], syncs = 1\<rparr>\<rparr>,
        ex_database\<lparr>ConfigurationSettings := [(''DoubleClickSpeed'',
            \<lparr>config_path = ''Control Panel/Mouse'', config_value = ''500'', is_critical = True\<rparr>)]\<rparr>,
        Some Restored, [RollbackPerformed ''DoubleClickSpeed''])
   \<and> rollbackIfNeeded MacOS (ex_key\<lparr>m_rollbackCancelled := True\<rparr>) ex_database
     = rollbackIfNeeded Windows (ex_key\<lparr>m_rollbackCancelled := True\<rparr>) ex_database
   \<and> filter is_RollbackPerformed (emitted (WindowsMonitoring_checkForChanges ex_env
        (ex_monitoring\<lparr>m_items := [ex_key\<lparr>m_rollbackCancelled := True\<rparr>]\<rparr>)))
     = [RollbackPerformed ''DoubleClickSpeed'']
   \<and> filter is_RollbackPerformed (emitted (MacOSMonitoring_checkForChanges ex_env
        (ex_monitoring\<lparr>m_items := [ex_key\<lparr>m_rollbackCancelled := True\<rparr>]\<rparr>)))
     = [RollbackPerformed ''DoubleClickSpeed'']
   \<and> map m_rollbackCancelled (m_items (WindowsMonitoring_checkForChanges ex_env
        (ex_monitoring\<lparr>m_items := [ex_key\<lparr>m_rollbackCancelled := True\<rparr>]\<rparr>))) = [False]"
  by code_simp

subsection \<open>The change log\<close>

text \<open>
  C2 at the scenario of the specification. The item is critical and its external value
  100 differs from the cached 500; the tick of either platform appends one Change Event,
  unacknowledged, whose \<open>critical\<close> column is false: both callers of \<^verbatim>\<open>insertChange\<close> leave
  the last argument to its default instead of passing the item's flag.
\<close>

theorem change_event_critical_flag_dropped:
  "m_isCritical ex_key
   \<and> Changes (m_database (WindowsMonitoring_checkForChanges ex_env ex_monitoring))
       = [\<lparr>config_name = ''DoubleClickSpeed'', old_value = ''500'', new_value = ''100'',
           acknowledged = False, critical = False\<rparr>]
   \<and> Changes (m_database (MacOSMonitoring_checkForChanges ex_env ex_monitoring))
       = [\<lparr>config_name = ''DoubleClickSpeed'', old_value = ''500'', new_value = ''100'',
           acknowledged = False, critical = False\<rparr>]"
  by code_simp

subsection \<open>A missing resource\<close>

text \<open>
  C3, as stated, fails. The plist file of the critical item cached at 500 is missing. The
  tick appends a Change Event (old 500, new empty), writes the empty value through and
  caches it. When, besides, the debounce table holds the cached value 500 for the item,
  the tick also rolls back (it writes 500 and emits \<^verbatim>\<open>rollbackPerformed\<close>) and two e-mails
  are delivered.
\<close>

theorem missing_resource_counterexample:
  "Changes (m_database (snd (MacOSMonitoring_checkFile ex_env ex_key_missing ex_monitoring)))
     = [\<lparr>config_name = ''DoubleClickSpeed'', old_value = ''500'', new_value = [],
         acknowledged = False, critical = False\<rparr>]
   \<and> m_value (fst (MacOSMonitoring_checkFile ex_env ex_key_missing ex_monitoring)) = []
   \<and> filter is_RollbackPerformed
        (emitted (snd (MacOSMonitoring_checkFile ex_env ex_key_missing ex_monitoring_alerted)))
     = [RollbackPerformed ''DoubleClickSpeed'']
   \<and> writes (m_qsettings (fst (MacOSMonitoring_checkFile ex_env ex_key_missing ex_monitoring_alerted)))
     = [''500'', []]
   \<and> filter is_delivered
        (emitted (snd (MacOSMonitoring_checkFile ex_env ex_key_missing ex_monitoring_alerted)))
     = [Delivery Email ''admin@example.org''
          ''[CRITICAL] Revert performed for file: DoubleClickSpeed'' True,
        Delivery Email ''admin@example.org''
          ''[CRITICAL ALERT] Control Panel/Mouse changed to '' True]"
  by code_simp

text \<open>
  C3, amended. For every item whose external resource is missing or unreadable, the read
  returns the empty string on either platform. When the cached value is empty too, the tick
  detects no transition and leaves the item and the monitoring state untouched: no Change
  Event, no rollback, no alert. When the cached value is not empty, the tick appends a
  Change Event from the cached value to the empty one (on a connected database), writes
  the empty value through and caches it; whether it also rolls back and alerts is decided
  by the debounce table.

  \<^item> If the table holds no value, or the empty one, for the item, there is no rollback and
    no alert: nothing is emitted but the signals of \<^verbatim>\<open>setValue\<close>, the alert object is
    unchanged, and the empty value is the only one written.

  \<^item> Otherwise a critical item is rolled back when its previous value is not empty (the
    previous value is written, \<^verbatim>\<open>rollbackPerformed\<close> is emitted), and it is alerted: Windows
    arms the delayed alert, macOS calls \<^verbatim>\<open>sendAlert\<close> for the change, and for the rollback
    when there is one.

  \<^item> Otherwise a non-critical item is not rolled back, and \<^verbatim>\<open>sendAlert\<close> is called when its
    counter reaches the threshold (on Windows unless the frequency is ``Never'').
\<close>

theorem missing_resource_read_as_empty:
  assumes "\<forall>v. resource (m_qsettings k) \<noteq> Val v"
  shows "getCurrentValue pf k = []
     \<and> (m_value k = [] \<longrightarrow>
          WindowsMonitoring_checkKey e k m = (k, m) \<and> MacOSMonitoring_checkFile e k m = (k, m))
     \<and> (m_value k \<noteq> [] \<and> connected (m_database m) \<longrightarrow>
          Changes (m_database (snd (WindowsMonitoring_checkKey e k m)))
            = Changes (m_database m) @ [logged_change k []]
        \<and> Changes (m_database (snd (MacOSMonitoring_checkFile e k m)))
            = Changes (m_database m) @ [logged_change k []]
        \<and> m_value (fst (WindowsMonitoring_checkKey e k m)) = []
        \<and> m_value (fst (MacOSMonitoring_checkFile e k m)) = [])
     \<and> (m_value k \<noteq> [] \<and> QHash_value (m_lastAlertedValue m) (m_valueName k) = [] \<longrightarrow>
          emitted (snd (WindowsMonitoring_checkKey e k m)) = emitted m
        \<and> emitted (snd (MacOSMonitoring_checkFile e k m))
            = emitted m @ [ValueChanged, LogMessage (''[LOG] Plist: '' @ m_valueName k @
                             '', Prev: '' @ m_value k @ '', New: '')]
        \<and> m_alert (snd (WindowsMonitoring_checkKey e k m)) = m_alert m
        \<and> m_alert (snd (MacOSMonitoring_checkFile e k m)) = m_alert m
        \<and> writes (m_qsettings (fst (WindowsMonitoring_checkKey e k m)))
            = writes (m_qsettings k) @ [[]]
        \<and> writes (m_qsettings (fst (MacOSMonitoring_checkFile e k m)))
            = writes (m_qsettings k) @ [[]])
     \<and> (m_value k \<noteq> [] \<and> QHash_value (m_lastAlertedValue m) (m_valueName k) \<noteq> []
          \<and> m_isCritical k \<longrightarrow>
          emitted (snd (WindowsMonitoring_checkKey e k m))
            = emitted m
              @ (if m_previousValue k \<noteq> []
                 then [RollbackPerformed (m_valueName k),
                       CriticalChangeDetected
                         (''[CRITICAL] Rollback performed for key: '' @ m_valueName k)]
                 else [])
              @ [SingleShot 10000 (m_valueName k)
                   (''[CRITICAL ALERT] Key: '' @ m_valueName k @ '' changed to '')]
        \<and> filter is_RollbackPerformed (emitted (snd (MacOSMonitoring_checkFile e k m)))
            = filter is_RollbackPerformed (emitted m)
              @ (if m_previousValue k \<noteq> [] then [RollbackPerformed (m_valueName k)] else [])
        \<and> filter is_SendAlert (emitted (snd (MacOSMonitoring_checkFile e k m)))
            = filter is_SendAlert (emitted m)
              @ (if m_previousValue k \<noteq> []
                 then [SendAlert (''[CRITICAL] Revert performed for file: '' @ m_valueName k)]
                 else [])
              @ [SendAlert (''[CRITICAL ALERT] '' @ m_path k @ '' changed to '')]
        \<and> writes (m_qsettings (fst (WindowsMonitoring_checkKey e k m)))
            = writes (m_qsettings k) @ (if m_previousValue k \<noteq> [] then [m_previousValue k] else [])
              @ [[]]
        \<and> writes (m_qsettings (fst (MacOSMonitoring_checkFile e k m)))
            = writes (m_qsettings k) @ (if m_previousValue k \<noteq> [] then [m_previousValue k] else [])
              @ [[]])
     \<and> (m_value k \<noteq> [] \<and> QHash_value (m_lastAlertedValue m) (m_valueName k) \<noteq> []
          \<and> \<not> m_isCritical k \<and> m_changeCount k < 2147483647 \<longrightarrow>
          filter is_RollbackPerformed (emitted (snd (WindowsMonitoring_checkKey e k m)))
            = filter is_RollbackPerformed (emitted m)
        \<and> filter is_RollbackPerformed (emitted (snd (MacOSMonitoring_checkFile e k m)))
            = filter is_RollbackPerformed (emitted m)
        \<and> filter is_SendAlert (emitted (snd (WindowsMonitoring_checkKey e k m)))
            = filter is_SendAlert (emitted m)
              @ (if threshold_reached m k
                    \<and> \<not> equal_ci (m_notificationFrequency (m_settings m)) ''Never''
                 then [SendAlert (''[ALERT] Non-critical threshold reached for '' @
                                  m_valueName k @ '': '')]
                 else [])
        \<and> filter is_SendAlert (emitted (snd (MacOSMonitoring_checkFile e k m)))
            = filter is_SendAlert (emitted m)
              @ (if threshold_reached m k
                 then [SendAlert (''[ALERT] Threshold reached for '' @ m_path k @ '': '')]
                 else [])
        \<and> writes (m_qsettings (fst (WindowsMonitoring_checkKey e k m)))
            = writes (m_qsettings k) @ [[]]
        \<and> writes (m_qsettings (fst (MacOSMonitoring_checkFile e k m)))
            = writes (m_qsettings k) @ [[]])"
proof -
  from assms have r: "RegistryKey_getCurrentValue k = []" and p: "PlistFile_getCurrentValue k = []"
    by (cases "resource (m_qsettings k)";
        simp add: RegistryKey_getCurrentValue_def RegistryKey_readCurrentValue_def
          PlistFile_getCurrentValue_def)+
  have g: "getCurrentValue pf k = []"
    using r p by (cases pf) simp_all
  have unchanged: "m_value k = [] \<longrightarrow>
      WindowsMonitoring_checkKey e k m = (k, m) \<and> MacOSMonitoring_checkFile e k m = (k, m)"
    using r p by (simp add: WindowsMonitoring_checkKey_def MacOSMonitoring_checkFile_def)
  have changed: "m_value k \<noteq> [] \<and> connected (m_database m) \<longrightarrow>
          Changes (m_database (snd (WindowsMonitoring_checkKey e k m)))
            = Changes (m_database m) @ [logged_change k []]
        \<and> Changes (m_database (snd (MacOSMonitoring_checkFile e k m)))
            = Changes (m_database m) @ [logged_change k []]
        \<and> m_value (fst (WindowsMonitoring_checkKey e k m)) = []
        \<and> m_value (fst (MacOSMonitoring_checkFile e k m)) = []"
    using r p
    by (auto simp add: Changes_WindowsMonitoring_checkKey Changes_MacOSMonitoring_checkFile
        m_value_WindowsMonitoring_checkKey m_value_MacOSMonitoring_checkFile)
  have debounced:
    "m_value k \<noteq> [] \<and> QHash_value (m_lastAlertedValue m) (m_valueName k) = [] \<longrightarrow>
          emitted (snd (WindowsMonitoring_checkKey e k m)) = emitted m
        \<and> emitted (snd (MacOSMonitoring_checkFile e k m))
            = emitted m @ [ValueChanged, LogMessage (''[LOG] Plist: '' @ m_valueName k @
                             '', Prev: '' @ m_value k @ '', New: '')]
        \<and> m_alert (snd (WindowsMonitoring_checkKey e k m)) = m_alert m
        \<and> m_alert (snd (MacOSMonitoring_checkFile e k m)) = m_alert m
        \<and> writes (m_qsettings (fst (WindowsMonitoring_checkKey e k m)))
            = writes (m_qsettings k) @ [[]]
        \<and> writes (m_qsettings (fst (MacOSMonitoring_checkFile e k m)))
            = writes (m_qsettings k) @ [[]]"
    using assms
    by (cases "resource (m_qsettings k)"; simp add: WindowsMonitoring_checkKey_def MacOSMonitoring_checkFile_def Let_def
        RegistryKey_getCurrentValue_def RegistryKey_readCurrentValue_def
        PlistFile_getCurrentValue_def RegistryKey_setValue_def PlistFile_setValue_def emit_def
        rollbackIfNeeded_def restorePreviousValue_def setNewValue_def setRollbackCancelled_def
        incrementChangeCount_def resetChangeCount_def threshold_reached_def)
  have critical:
    "m_value k \<noteq> [] \<and> QHash_value (m_lastAlertedValue m) (m_valueName k) \<noteq> []
          \<and> m_isCritical k \<longrightarrow>
          emitted (snd (WindowsMonitoring_checkKey e k m))
            = emitted m
              @ (if m_previousValue k \<noteq> []
                 then [RollbackPerformed (m_valueName k),
                       CriticalChangeDetected
                         (''[CRITICAL] Rollback performed for key: '' @ m_valueName k)]
                 else [])
              @ [SingleShot 10000 (m_valueName k)
                   (''[CRITICAL ALERT] Key: '' @ m_valueName k @ '' changed to '')]
        \<and> filter is_RollbackPerformed (emitted (snd (MacOSMonitoring_checkFile e k m)))
            = filter is_RollbackPerformed (emitted m)
              @ (if m_previousValue k \<noteq> [] then [RollbackPerformed (m_valueName k)] else [])
        \<and> filter is_SendAlert (emitted (snd (MacOSMonitoring_checkFile e k m)))
            = filter is_SendAlert (emitted m)
              @ (if m_previousValue k \<noteq> []
                 then [SendAlert (''[CRITICAL] Revert performed for file: '' @ m_valueName k)]
                 else [])
              @ [SendAlert (''[CRITICAL ALERT] '' @ m_path k @ '' changed to '')]
        \<and> writes (m_qsettings (fst (WindowsMonitoring_checkKey e k m)))
            = writes (m_qsettings k) @ (if m_previousValue k \<noteq> [] then [m_previousValue k] else [])
              @ [[]]
        \<and> writes (m_qsettings (fst (MacOSMonitoring_checkFile e k m)))
            = writes (m_qsettings k) @ (if m_previousValue k \<noteq> [] then [m_previousValue k] else [])
              @ [[]]"
    using assms
    by (cases "resource (m_qsettings k)"; simp add: WindowsMonitoring_checkKey_def MacOSMonitoring_checkFile_def Let_def
        RegistryKey_getCurrentValue_def RegistryKey_readCurrentValue_def
        PlistFile_getCurrentValue_def RegistryKey_setValue_def PlistFile_setValue_def emit_def
        rollbackIfNeeded_def restorePreviousValue_def setNewValue_def setRollbackCancelled_def
        incrementChangeCount_def resetChangeCount_def threshold_reached_def)
  have noncritical:
    "m_value k \<noteq> [] \<and> QHash_value (m_lastAlertedValue m) (m_valueName k) \<noteq> []
          \<and> \<not> m_isCritical k \<and> m_changeCount k < 2147483647 \<longrightarrow>
          filter is_RollbackPerformed (emitted (snd (WindowsMonitoring_checkKey e k m)))
            = filter is_RollbackPerformed (emitted m)
        \<and> filter is_RollbackPerformed (emitted (snd (MacOSMonitoring_checkFile e k m)))
            = filter is_RollbackPerformed (emitted m)
        \<and> filter is_SendAlert (emitted (snd (WindowsMonitoring_checkKey e k m)))
            = filter is_SendAlert (emitted m)
              @ (if threshold_reached m k
                    \<and> \<not> equal_ci (m_notificationFrequency (m_settings m)) ''Never''
                 then [SendAlert (''[ALERT] Non-critical threshold reached for '' @
                                  m_valueName k @ '': '')]
                 else [])
        \<and> filter is_SendAlert (emitted (snd (MacOSMonitoring_checkFile e k m)))
            = filter is_SendAlert (emitted m)
              @ (if threshold_reached m k
                 then [SendAlert (''[ALERT] Threshold reached for '' @ m_path k @ '': '')]
                 else [])
        \<and> writes (m_qsettings (fst (WindowsMonitoring_checkKey e k m)))
            = writes (m_qsettings k) @ [[]]
        \<and> writes (m_qsettings (fst (MacOSMonitoring_checkFile e k m)))
            = writes (m_qsettings k) @ [[]]"
    using assms
    by (cases "resource (m_qsettings k)"; simp add: WindowsMonitoring_checkKey_def MacOSMonitoring_checkFile_def Let_def
        RegistryKey_getCurrentValue_def RegistryKey_readCurrentValue_def
        PlistFile_getCurrentValue_def RegistryKey_setValue_def PlistFile_setValue_def emit_def
        rollbackIfNeeded_def restorePreviousValue_def setNewValue_def setRollbackCancelled_def
        incrementChangeCount_def resetChangeCount_def threshold_reached_def)
  from g unchanged changed debounced critical noncritical show ?thesis
    by (intro conjI)
qed

theorem missing_resource_read_as_empty_witness:
  "getCurrentValue Windows ex_key_missing = []
   \<and> WindowsMonitoring_checkKey ex_env (ex_key_missing\<lparr>m_value := []\<rparr>) ex_monitoring
       = (ex_key_missing\<lparr>m_value := []\<rparr>, ex_monitoring)
   \<and> Changes (m_database (snd (WindowsMonitoring_checkKey ex_env ex_key_missing ex_monitoring)))
       = [\<lparr>config_name = ''DoubleClickSpeed'', old_value = ''500'', new_value = [],
           acknowledged = False, critical = False\<rparr>]
   \<and> emitted (snd (WindowsMonitoring_checkKey ex_env ex_key_missing ex_monitoring)) = []
   \<and> writes (m_qsettings (fst (WindowsMonitoring_checkKey ex_env ex_key_missing ex_monitoring)))
       = [[]]
   \<and> emitted (snd (WindowsMonitoring_checkKey ex_env ex_key_missing ex_monitoring_alerted))
       = [RollbackPerformed ''DoubleClickSpeed'',
          CriticalChangeDetected ''[CRITICAL] Rollback performed for key: DoubleClickSpeed'',
          SingleShot 10000 ''DoubleClickSpeed'' ''[CRITICAL ALERT] Key: DoubleClickSpeed changed to '']
   \<and> writes (m_qsettings (fst (WindowsMonitoring_checkKey ex_env ex_key_missing ex_monitoring_alerted)))
       = [''500'', []]
   \<and> filter is_SendAlert (emitted (snd (MacOSMonitoring_checkFile ex_env
         (ex_key_missing\<lparr>m_isCritical := False\<rparr>) ex_monitoring_alerted)))
       = [SendAlert ''[ALERT] Threshold reached for Control Panel/Mouse: '']"
proof -
  have missing: "\<forall>v. resource (m_qsettings ex_key_missing) \<noteq> Val v"
    and missing_empty: "\<forall>v. resource (m_qsettings (ex_key_missing\<lparr>m_value := []\<rparr>)) \<noteq> Val v"
    and missing_nc: "\<forall>v. resource (m_qsettings (ex_key_missing\<lparr>m_isCritical := False\<rparr>)) \<noteq> Val v"
    by (simp_all add: ex_key_missing_def ex_key_def)
  have t: "QString_toInt ''1'' = 1"
    by code_simp
  note quiet = missing_resource_read_as_empty [OF missing, of Windows ex_env ex_monitoring]
  note same = missing_resource_read_as_empty [OF missing_empty, of Windows ex_env ex_monitoring]
  note loud = missing_resource_read_as_empty [OF missing, of Windows ex_env ex_monitoring_alerted]
  note counted = missing_resource_read_as_empty [OF missing_nc, of MacOS ex_env ex_monitoring_alerted]
  from quiet have one: "getCurrentValue Windows ex_key_missing = []"
    by (rule conjunct1)
  from same have two: "WindowsMonitoring_checkKey ex_env (ex_key_missing\<lparr>m_value := []\<rparr>) ex_monitoring
       = (ex_key_missing\<lparr>m_value := []\<rparr>, ex_monitoring)"
    by simp
  from quiet have three:
    "Changes (m_database (snd (WindowsMonitoring_checkKey ex_env ex_key_missing ex_monitoring)))
       = [\<lparr>config_name = ''DoubleClickSpeed'', old_value = ''500'', new_value = [],
           acknowledged = False, critical = False\<rparr>]"
    by (simp add: ex_key_missing_def ex_key_def ex_monitoring_def ex_database_def
        logged_change_def insertChange_default_critical_def)
  from quiet have four:
    "emitted (snd (WindowsMonitoring_checkKey ex_env ex_key_missing ex_monitoring)) = []
     \<and> writes (m_qsettings (fst (WindowsMonitoring_checkKey ex_env ex_key_missing ex_monitoring)))
       = [[]]"
    by (simp add: ex_key_missing_def ex_key_def ex_monitoring_def QHash_value_def)
  from loud have five:
    "emitted (snd (WindowsMonitoring_checkKey ex_env ex_key_missing ex_monitoring_alerted))
       = [RollbackPerformed ''DoubleClickSpeed'',
          CriticalChangeDetected ''[CRITICAL] Rollback performed for key: DoubleClickSpeed'',
          SingleShot 10000 ''DoubleClickSpeed'' ''[CRITICAL ALERT] Key: DoubleClickSpeed changed to '']
     \<and> writes (m_qsettings (fst (WindowsMonitoring_checkKey ex_env ex_key_missing ex_monitoring_alerted)))
       = [''500'', []]"
    by (simp add: ex_key_missing_def ex_key_def ex_monitoring_alerted_def ex_monitoring_def
        QHash_value_def)
  from counted have six:
    "filter is_SendAlert (emitted (snd (MacOSMonitoring_checkFile ex_env
         (ex_key_missing\<lparr>m_isCritical := False\<rparr>) ex_monitoring_alerted)))
       = [SendAlert ''[ALERT] Threshold reached for Control Panel/Mouse: '']"
    by (simp add: ex_key_missing_def ex_key_def ex_monitoring_alerted_def ex_monitoring_def
        QHash_value_def threshold_reached_def t)
  from one two three four five six show ?thesis
    by (intro conjI) simp_all
qed

subsection \<open>A restore that does not take effect\<close>

text \<open>
  C4 at a failing input. The critical item has baseline 500 and a read-only external
  resource holding 100. On either platform \<^verbatim>\<open>restorePreviousValue\<close> logs that the restore
  failed and the resource still reads 100, yet \<^verbatim>\<open>rollbackIfNeeded\<close> emits
  \<^verbatim>\<open>rollbackPerformed\<close>: the signal does not depend on the re-read.
\<close>

theorem rollbackPerformed_after_failed_restore:
  "snd (snd (rollbackIfNeeded Windows
      (ex_key\<lparr>m_qsettings := \<lparr>resource = Val ''100'', writable = False, writes = [], syncs = 0\<rparr>\<rparr>)
      ex_database))
     = (Some RestoreFailed, [RollbackPerformed ''DoubleClickSpeed''])
   \<and> getCurrentValue Windows (fst (rollbackIfNeeded Windows
      (ex_key\<lparr>m_qsettings := \<lparr>resource = Val ''100'', writable = False, writes = [], syncs = 0\<rparr>\<rparr>)
      ex_database)) = ''100''
   \<and> snd (snd (rollbackIfNeeded MacOS
      (ex_key\<lparr>m_qsettings := \<lparr>resource = Val ''100'', writable = False, writes = [], syncs = 0\<rparr>\<rparr>)
      ex_database))
     = (Some RestoreFailed, [RollbackPerformed ''DoubleClickSpeed''])"
  by code_simp

subsection \<open>Notification frequency ``Never''\<close>

text \<open>
  C5 at a failing input. The notification frequency is ``Never'', one contact has an
  e-mail address and the transport delivers. A macOS tick on the critical item sends two
  e-mails (one from the \<^verbatim>\<open>rollbackPerformed\<close> slot, one from the tick itself), and a macOS tick
  on a non-critical item at threshold 1 sends one: \<^verbatim>\<open>MacOSMonitoring\<close> never tests the
  frequency, and \<^verbatim>\<open>sendAlert\<close> reads ``Never'' as 0 and falls back to 10 alerts per hour.
\<close>

theorem macOS_alerts_sent_with_frequency_Never:
  "equal_ci (m_notificationFrequency (m_settings ex_monitoring)) ''Never''
   \<and> filter is_delivered (emitted (MacOSMonitoring_checkForChanges ex_env ex_monitoring))
       = [Delivery Email ''admin@example.org''
            ''[CRITICAL] Revert performed for file: DoubleClickSpeed'' True,
          Delivery Email ''admin@example.org''
            ''[CRITICAL ALERT] Control Panel/Mouse changed to 100'' True]
   \<and> filter is_delivered (emitted (MacOSMonitoring_checkForChanges ex_env
         (ex_monitoring\<lparr>m_items := [ex_key\<lparr>m_isCritical := False\<rparr>]\<rparr>)))
       = [Delivery Email ''admin@example.org''
            ''[ALERT] Threshold reached for Control Panel/Mouse: 100'' True]"
  by code_simp

subsection \<open>The dispatcher and its rate limit\<close>

text \<open>
  C6. \<^verbatim>\<open>sendAlert\<close> returns true iff the transport accepts the message for at least one
  contact channel (with the database handle set) and the pruned window holds fewer
  timestamps than the hourly limit; so with a transport that refuses every delivery it
  returns false. It returns true iff one of the deliveries it attempted succeeded, and every
  delivery record tells what the transport answered. It appends the timestamp to the pruned
  window exactly when it returns true; otherwise the window gains nothing, and a call that
  failed leaves the result of a later call as it would have been without it: failed
  attempts do not consume the budget. On a deliverable alert object with frequency \<open>N > 0\<close>,
  a call succeeds iff fewer than \<open>N\<close> of the recorded timestamps lie within the last hour,
  so capacity returns as timestamps age out; and of a burst of \<open>N + k\<close> calls within one
  hour, starting from an empty window, the first \<open>N\<close> are sent and the last \<open>k\<close> are dropped.
\<close>

theorem sendAlert_rate_limit:
  "fst (sendAlert tr f db n s msg a)
     = (deliverable tr a db msg
        \<and> int (length (within_hour n (m_alertTimestamps a))) < hourly_limit f)
   \<and> ((\<forall>c addr. \<not> tr c addr msg) \<longrightarrow> \<not> fst (sendAlert tr f db n s msg a))
   \<and> fst (sendAlert tr f db n s msg a) = list_ex is_delivered (snd (snd (sendAlert tr f db n s msg a)))
   \<and> list_all (reports tr) (snd (snd (sendAlert tr f db n s msg a)))
   \<and> (fst (sendAlert tr f db n s msg a) \<longrightarrow>
        m_alertTimestamps (fst (snd (sendAlert tr f db n s msg a)))
          = within_hour n (m_alertTimestamps a) @ [s])
   \<and> (\<not> fst (sendAlert tr f db n s msg a) \<longrightarrow>
        m_alertTimestamps (fst (snd (sendAlert tr f db n s msg a))) = m_alertTimestamps a
        \<or> m_alertTimestamps (fst (snd (sendAlert tr f db n s msg a)))
          = within_hour n (m_alertTimestamps a))
   \<and> (\<not> fst (sendAlert tr f db n s msg a) \<and> n \<le> n' \<longrightarrow>
        fst (sendAlert tr' f db n' s' msg' (fst (snd (sendAlert tr f db n s msg a))))
          = fst (sendAlert tr' f db n' s' msg' a))
   \<and> (deliverable tr a db msg \<and> 0 < QString_toInt f \<longrightarrow>
        fst (sendAlert tr f db n s msg a)
          = (int (length (within_hour n (m_alertTimestamps a))) < QString_toInt f))
   \<and> (deliverable tr a db msg \<and> 0 < QString_toInt f \<and> m_alertTimestamps a = []
        \<and> (\<forall>c \<in> set calls. lo \<le> snd c \<and> fst c \<le> lo + 3600000)
        \<and> length calls = nat (QString_toInt f) + k \<longrightarrow>
        fst (burst tr f db msg calls a)
          = replicate (nat (QString_toInt f)) True @ replicate k False)"
proof -
  let ?r = "sendAlert tr f db n s msg a"
  have result: "fst ?r
     = (deliverable tr a db msg
        \<and> int (length (within_hour n (m_alertTimestamps a))) < hourly_limit f)"
    by (rule sendAlert_result)
  have refused: "(\<forall>c addr. \<not> tr c addr msg) \<longrightarrow> \<not> fst ?r"
    unfolding result by (auto simp add: deliverable_def list_ex_iff accepts_def)
  have delivered: "fst ?r = list_ex is_delivered (snd (snd ?r))"
    by (rule sendAlert_true_iff_delivered)
  have records: "list_all (reports tr) (snd (snd ?r))"
    by (rule sendAlert_reports)
  have stamps: "(fst ?r \<longrightarrow>
        m_alertTimestamps (fst (snd ?r)) = within_hour n (m_alertTimestamps a) @ [s])
      \<and> (\<not> fst ?r \<longrightarrow>
        m_alertTimestamps (fst (snd ?r)) = m_alertTimestamps a
        \<or> m_alertTimestamps (fst (snd ?r)) = within_hour n (m_alertTimestamps a))"
    by (rule sendAlert_timestamps)
  have later: "\<not> fst ?r \<and> n \<le> n' \<longrightarrow>
        fst (sendAlert tr' f db n' s' msg' (fst (snd ?r))) = fst (sendAlert tr' f db n' s' msg' a)"
  proof (intro impI, elim conjE)
    assume failed: "\<not> fst ?r" and le: "n \<le> n'"
    from stamps failed
    have "within_hour n' (m_alertTimestamps (fst (snd ?r))) = within_hour n' (m_alertTimestamps a)"
      using within_hour_within_hour [OF le, of "m_alertTimestamps a"] by auto
    moreover have "deliverable tr' (fst (snd ?r)) db msg' = deliverable tr' a db msg'"
      by (subst sendAlert_alert) simp
    ultimately show "fst (sendAlert tr' f db n' s' msg' (fst (snd ?r)))
        = fst (sendAlert tr' f db n' s' msg' a)"
      by (simp add: sendAlert_result)
  qed
  have window: "deliverable tr a db msg \<and> 0 < QString_toInt f \<longrightarrow>
        fst ?r = (int (length (within_hour n (m_alertTimestamps a))) < QString_toInt f)"
    by (simp add: sendAlert_deliverable Let_def)
  have bursts: "deliverable tr a db msg \<and> 0 < QString_toInt f \<and> m_alertTimestamps a = []
        \<and> (\<forall>c \<in> set calls. lo \<le> snd c \<and> fst c \<le> lo + 3600000)
        \<and> length calls = nat (QString_toInt f) + k \<longrightarrow>
        fst (burst tr f db msg calls a)
          = replicate (nat (QString_toInt f)) True @ replicate k False"
  proof (intro impI, elim conjE)
    assume h: "deliverable tr a db msg" "0 < QString_toInt f" "m_alertTimestamps a = []"
      "\<forall>c \<in> set calls. lo \<le> snd c \<and> fst c \<le> lo + 3600000"
      "length calls = nat (QString_toInt f) + k"
    from h(3) have "\<forall>t \<in> set (m_alertTimestamps a). lo \<le> t" by simp
    from burst_general [OF h(1) h(2) this h(4)] h(3) h(5)
    show "fst (burst tr f db msg calls a)
          = replicate (nat (QString_toInt f)) True @ replicate k False"
      by simp
  qed
  from stamps have stamps1: "fst ?r \<longrightarrow>
        m_alertTimestamps (fst (snd ?r)) = within_hour n (m_alertTimestamps a) @ [s]"
    and stamps2: "\<not> fst ?r \<longrightarrow>
        m_alertTimestamps (fst (snd ?r)) = m_alertTimestamps a
        \<or> m_alertTimestamps (fst (snd ?r)) = within_hour n (m_alertTimestamps a)"
    by blast+
  from result refused delivered records stamps1 stamps2 later window bursts
  show ?thesis
    by (intro conjI)
qed

theorem sendAlert_rate_limit_witness:
  "fst (burst (transport ex_env) ''2'' ex_database ''alert'' ex_calls ex_alert)
     = [True, True, False]
   \<and> \<not> fst (sendAlert (\<lambda>c addr msg. False) ''2'' ex_database 1000000 1000001 ''alert'' ex_alert)
   \<and> m_alertTimestamps (fst (snd
        (sendAlert (\<lambda>c addr msg. False) ''2'' ex_database 1000000 1000001 ''alert'' ex_alert))) = []
   \<and> fst (sendAlert (transport ex_env) ''2'' ex_database 1000002 1000003 ''alert''
        (fst (snd (sendAlert (\<lambda>c addr msg. False) ''2'' ex_database 1000000 1000001 ''alert''
           ex_alert))))"
proof -
  let ?no = "(\<lambda>c addr msg. False) :: transport"
  let ?failed = "sendAlert ?no ''2'' ex_database 1000000 1000001 ''alert'' ex_alert"
  note sent = sendAlert_rate_limit
    [where tr = "transport ex_env" and f = "''2''" and db = ex_database and n = 1000002
       and s = 1000003 and msg = "''alert''" and a = ex_alert and calls = ex_calls
       and lo = 1000000 and k = 1]
  note refused = sendAlert_rate_limit
    [where tr = ?no and f = "''2''" and db = ex_database and n = 1000000
       and s = 1000001 and msg = "''alert''" and a = ex_alert and n' = 1000002
       and s' = 1000003 and tr' = "transport ex_env" and msg' = "''alert''"]
  have d: "deliverable (transport ex_env) ex_alert ex_database ''alert''"
    by (simp add: deliverable_def accepts_def ex_env_def ex_alert_def ex_database_def
        getAllUserSettings_def)
  have q: "QString_toInt ''2'' = 2"
    by code_simp
  have e: "m_alertTimestamps ex_alert = []"
    by (simp add: ex_alert_def)
  have c: "\<forall>c \<in> set ex_calls. 1000000 \<le> snd c \<and> fst c \<le> 1000000 + 3600000"
    by (simp add: ex_calls_def)
  have l: "length ex_calls = nat (QString_toInt ''2'') + 1"
    by (simp add: ex_calls_def q)
  from sent
  have "deliverable (transport ex_env) ex_alert ex_database ''alert'' \<and> 0 < QString_toInt ''2''
        \<and> m_alertTimestamps ex_alert = []
        \<and> (\<forall>c \<in> set ex_calls. 1000000 \<le> snd c \<and> fst c \<le> 1000000 + 3600000)
        \<and> length ex_calls = nat (QString_toInt ''2'') + 1 \<longrightarrow>
        fst (burst (transport ex_env) ''2'' ex_database ''alert'' ex_calls ex_alert)
          = replicate (nat (QString_toInt ''2'')) True @ replicate 1 False"
    by blast
  with d e c l have "fst (burst (transport ex_env) ''2'' ex_database ''alert'' ex_calls ex_alert)
          = replicate (nat (QString_toInt ''2'')) True @ replicate 1 False"
    by (simp add: q)
  then have one: "fst (burst (transport ex_env) ''2'' ex_database ''alert'' ex_calls ex_alert)
     = [True, True, False]"
    by (simp add: q numeral_2_eq_2)
  from refused have "(\<forall>c addr. \<not> ?no c addr ''alert'') \<longrightarrow> \<not> fst ?failed"
    by blast
  then have two: "\<not> fst ?failed"
    by simp
  from refused have "\<not> fst ?failed \<longrightarrow>
        m_alertTimestamps (fst (snd ?failed)) = m_alertTimestamps ex_alert
        \<or> m_alertTimestamps (fst (snd ?failed)) = within_hour 1000000 (m_alertTimestamps ex_alert)"
    by blast
  with two have three: "m_alertTimestamps (fst (snd ?failed)) = []"
    by (auto simp add: e within_hour_def)
  from refused have "\<not> fst ?failed \<and> (1000000 :: int) \<le> 1000002 \<longrightarrow>
        fst (sendAlert (transport ex_env) ''2'' ex_database 1000002 1000003 ''alert'' (fst (snd ?failed)))
          = fst (sendAlert (transport ex_env) ''2'' ex_database 1000002 1000003 ''alert'' ex_alert)"
    by blast
  with two have "fst (sendAlert (transport ex_env) ''2'' ex_database 1000002 1000003 ''alert'' (fst (snd ?failed)))
          = fst (sendAlert (transport ex_env) ''2'' ex_database 1000002 1000003 ''alert'' ex_alert)"
    by simp
  moreover from sent have "deliverable (transport ex_env) ex_alert ex_database ''alert'' \<and> 0 < QString_toInt ''2'' \<longrightarrow>
        fst (sendAlert (transport ex_env) ''2'' ex_database 1000002 1000003 ''alert'' ex_alert)
          = (int (length (within_hour 1000002 (m_alertTimestamps ex_alert))) < QString_toInt ''2'')"
    by blast
  with d have "fst (sendAlert (transport ex_env) ''2'' ex_database 1000002 1000003 ''alert'' ex_alert)"
    by (simp add: q e within_hour_def)
  ultimately have four:
    "fst (sendAlert (transport ex_env) ''2'' ex_database 1000002 1000003 ''alert'' (fst (snd ?failed)))"
    by simp
  from one two three four show ?thesis
    by (intro conjI)
qed

subsection \<open>The non-critical threshold\<close>

text \<open>
  C7, as stated, fails. On Windows, with threshold 1 and frequency ``Never'', a
  non-critical item diverges: its counter reaches the threshold, the tick resets the
  counter to zero, and no alert is requested.
\<close>

theorem threshold_reached_no_alert_counterexample:
  "threshold_reached ex_monitoring (ex_key\<lparr>m_isCritical := False\<rparr>)
   \<and> emitted (snd (WindowsMonitoring_checkKey ex_env (ex_key\<lparr>m_isCritical := False\<rparr>)
        ex_monitoring)) = []
   \<and> m_changeCount (fst (WindowsMonitoring_checkKey ex_env (ex_key\<lparr>m_isCritical := False\<rparr>)
        ex_monitoring)) = 0"
  by code_simp

text \<open>
  C7, amended. For every non-critical item whose observed value differs from the cached
  one and is not debounced, the tick increments the counter and tests it against the
  configured threshold. On macOS it calls \<^verbatim>\<open>sendAlert\<close> exactly once iff the threshold is
  positive and reached; on Windows iff, besides, the frequency is not ``Never''. On both the
  counter is reset to zero exactly when the threshold is reached, and is the incremented
  count otherwise.
\<close>

theorem noncritical_threshold_alert:
  assumes "\<not> m_isCritical k" and "m_changeCount k < 2147483647"
    and "getCurrentValue pf k \<noteq> m_value k"
    and "QHash_value (m_lastAlertedValue m) (m_valueName k) \<noteq> getCurrentValue pf k"
  shows "filter is_SendAlert (emitted (snd (WindowsMonitoring_checkKey e k m)))
           = filter is_SendAlert (emitted m) @
             (if threshold_reached m k \<and> \<not> equal_ci (m_notificationFrequency (m_settings m)) ''Never''
              then [SendAlert (''[ALERT] Non-critical threshold reached for '' @ m_valueName k @
                               '': '' @ getCurrentValue pf k)]
              else [])
       \<and> m_changeCount (fst (WindowsMonitoring_checkKey e k m))
           = (if threshold_reached m k then 0 else m_changeCount k + 1)
       \<and> filter is_SendAlert (emitted (snd (MacOSMonitoring_checkFile e k m)))
           = filter is_SendAlert (emitted m) @
             (if threshold_reached m k
              then [SendAlert (''[ALERT] Threshold reached for '' @ m_path k @ '': '' @
                               getCurrentValue pf k)]
              else [])
       \<and> m_changeCount (fst (MacOSMonitoring_checkFile e k m))
           = (if threshold_reached m k then 0 else m_changeCount k + 1)"
proof -
  have g: "getCurrentValue pf k = RegistryKey_getCurrentValue k"
    by (rule getCurrentValue_Registry)
  have p: "PlistFile_getCurrentValue k = RegistryKey_getCurrentValue k"
    by (rule PlistFile_getCurrentValue_eq)
  have w: "filter is_SendAlert (emitted (snd (WindowsMonitoring_checkKey e k m)))
           = filter is_SendAlert (emitted m) @
             (if threshold_reached m k \<and> \<not> equal_ci (m_notificationFrequency (m_settings m)) ''Never''
              then [SendAlert (''[ALERT] Non-critical threshold reached for '' @ m_valueName k @
                               '': '' @ getCurrentValue pf k)]
              else [])
       \<and> m_changeCount (fst (WindowsMonitoring_checkKey e k m))
           = (if threshold_reached m k then 0 else m_changeCount k + 1)"
    using assms(1,3,4) unfolding g
    by (simp add: WindowsMonitoring_checkKey_def Let_def threshold_reached_def
        incrementChangeCount_def resetChangeCount_def)
  have x: "filter is_SendAlert (emitted (snd (MacOSMonitoring_checkFile e k m)))
           = filter is_SendAlert (emitted m) @
             (if threshold_reached m k
              then [SendAlert (''[ALERT] Threshold reached for '' @ m_path k @ '': '' @
                               getCurrentValue pf k)]
              else [])
       \<and> m_changeCount (fst (MacOSMonitoring_checkFile e k m))
           = (if threshold_reached m k then 0 else m_changeCount k + 1)"
    using assms(1,3,4) unfolding g
    by (simp add: MacOSMonitoring_checkFile_def p Let_def threshold_reached_def
        incrementChangeCount_def resetChangeCount_def)
  from w x show ?thesis by blast
qed

theorem noncritical_threshold_alert_witness:
  "filter is_SendAlert (emitted (snd (WindowsMonitoring_checkKey ex_env
       (ex_key\<lparr>m_isCritical := False, m_changeCount := 2\<rparr>)
       (ex_monitoring\<lparr>m_settings :=
          \<lparr>m_nonCriticalAlertThreshold = ''3'', m_notificationFrequency = ''10''\<rparr>\<rparr>))))
     = [SendAlert ''[ALERT] Non-critical threshold reached for DoubleClickSpeed: 100'']
   \<and> m_changeCount (fst (WindowsMonitoring_checkKey ex_env
       (ex_key\<lparr>m_isCritical := False, m_changeCount := 2\<rparr>)
       (ex_monitoring\<lparr>m_settings :=
          \<lparr>m_nonCriticalAlertThreshold = ''3'', m_notificationFrequency = ''10''\<rparr>\<rparr>))) = 0"
proof -
  have t: "QString_toInt ''3'' = 3"
    by code_simp
  have n: "\<not> equal_ci ''10'' ''Never''"
    by code_simp
  from noncritical_threshold_alert
    [of "ex_key\<lparr>m_isCritical := False, m_changeCount := 2\<rparr>" Windows
        "ex_monitoring\<lparr>m_settings :=
          \<lparr>m_nonCriticalAlertThreshold = ''3'', m_notificationFrequency = ''10''\<rparr>\<rparr>" ex_env]
  show ?thesis
    by (simp add: ex_key_def ex_monitoring_def RegistryKey_getCurrentValue_def
        RegistryKey_readCurrentValue_def QHash_value_def threshold_reached_def t n)
qed

subsection \<open>Encrypting and decrypting\<close>

text \<open>
  C8, as stated, fails in both halves. Data encrypted under one vector and decrypted under
  another one, with the same key, is not reported as a failure: the string \<^verbatim>\<open>500\<close>
  encrypted with the vector 10 11 ... 1f and decrypted with the vector 11 11 ... 1f comes
  back as the string \<^verbatim>\<open>400\<close>, both vectors being valid key material. And with one key and
  one vector, the string made of U+FEFF followed by \<^verbatim>\<open>500\<close> comes back without its first
  character.
\<close>

theorem decrypt_mismatched_iv_counterexample:
  "valid_keys ex_keys \<and> valid_keys ex_keys_other_iv
   \<and> decrypt ex_keys_other_iv (encrypt ex_keys [0x35, 0x30, 0x30]) = [0x34, 0x30, 0x30]
   \<and> decrypt ex_keys (encrypt ex_keys [0xfeff, 0x35, 0x30, 0x30]) = [0x35, 0x30, 0x30]"
proof -
  have v: "valid_keys ex_keys" and v': "valid_keys ex_keys_other_iv"
    by (simp_all add: valid_keys_def ex_keys_def ex_keys_other_iv_def)
  have "decrypt ex_keys_other_iv (encrypt ex_keys [0x35, 0x30, 0x30])
      = (case pkcs7_unpad
                (xor_bytes (xor_bytes (take 16 (pkcs7_pad (toUtf8 [0x35, 0x30, 0x30])))
                     (map of_nat [16..<32])) (17 # map of_nat [17..<32])
                 @ drop 16 (pkcs7_pad (toUtf8 [0x35, 0x30, 0x30]))) of
            None \<Rightarrow> []
          | Some out \<Rightarrow> fromUtf8 out)"
    unfolding ex_keys_def ex_keys_other_iv_def
    by (rule decrypt_encrypt_general) simp_all
  also have "\<dots> = [0x34, 0x30, 0x30]"
    by code_simp
  finally have iv: "decrypt ex_keys_other_iv (encrypt ex_keys [0x35, 0x30, 0x30]) = [0x34, 0x30, 0x30]" .
  have "decrypt ex_keys (encrypt ex_keys [0xfeff, 0x35, 0x30, 0x30])
      = fromUtf8 (toUtf8 [0xfeff, 0x35, 0x30, 0x30])"
    using v by (rule decrypt_encrypt_same_keys)
  also have "\<dots> = [0x35, 0x30, 0x30]"
    by code_simp
  finally have bom: "decrypt ex_keys (encrypt ex_keys [0xfeff, 0x35, 0x30, 0x30]) = [0x35, 0x30, 0x30]" .
  from v v' iv bom show ?thesis
    by (intro conjI)
qed

text \<open>
  C8, amended. With a key of 32 bytes and a vector of 16 bytes loaded and not changed in
  between, \<^verbatim>\<open>decrypt(encrypt(s))\<close> is \<^verbatim>\<open>QString::fromUtf8(s.toUtf8())\<close> for every string \<open>s\<close>,
  the empty one included; for every string that is valid UTF-16 this is \<open>s\<close> itself, less a
  leading U+FEFF when \<open>s\<close> starts with one. When
  the data was encrypted under one valid key and vector and is decrypted under another, the
  only test that can report the mismatch is the padding test on the decrypted blocks: the
  result is the empty string when that test fails, and otherwise whatever
  \<^verbatim>\<open>QString::fromUtf8\<close> makes of the unpadded bytes. With the same key and another vector of
  16 bytes, on a string whose UTF-8 form has at least 16 bytes, the padding test always
  passes: \<^verbatim>\<open>decrypt\<close> returns \<^verbatim>\<open>QString::fromUtf8\<close> of the UTF-8 form of \<open>s\<close> with its first
  16 bytes combined by exclusive or with both vectors. These bytes differ from the UTF-8
  form of \<open>s\<close> when the vectors differ, and the string returned is not empty.
\<close>

theorem decrypt_encrypt_roundtrip:
  "(valid_keys ks \<longrightarrow> decrypt ks (encrypt ks s) = fromUtf8 (toUtf8 s))
   \<and> (valid_keys ks \<and> isValidUtf16 s \<longrightarrow>
        decrypt ks (encrypt ks s) = (if s \<noteq> [] \<and> hd s = 0xfeff then tl s else s))
   \<and> (valid_keys ks \<and> valid_keys ks' \<and> s \<noteq> [] \<longrightarrow>
        decrypt ks' (encrypt ks s)
          = (case pkcs7_unpad (cbc_decrypt (encryptionKey ks') (encryptionIv ks')
                   (cbc_encrypt (encryptionKey ks) (encryptionIv ks) (pkcs7_pad (toUtf8 s)))) of
               None \<Rightarrow> []
             | Some out \<Rightarrow> fromUtf8 out))
   \<and> (valid_keys ks \<and> length iv = 16 \<and> 16 \<le> length (toUtf8 s) \<longrightarrow>
        decrypt (ks\<lparr>encryptionIv := iv\<rparr>) (encrypt ks s)
          = fromUtf8 (xor_bytes (xor_bytes (take 16 (toUtf8 s)) (encryptionIv ks)) iv
                        @ drop 16 (toUtf8 s))
        \<and> decrypt (ks\<lparr>encryptionIv := iv\<rparr>) (encrypt ks s) \<noteq> []
        \<and> (iv \<noteq> encryptionIv ks \<longrightarrow>
             xor_bytes (xor_bytes (take 16 (toUtf8 s)) (encryptionIv ks)) iv @ drop 16 (toUtf8 s)
               \<noteq> toUtf8 s))"
proof (intro conjI impI)
  assume "valid_keys ks"
  then show "decrypt ks (encrypt ks s) = fromUtf8 (toUtf8 s)"
    by (rule decrypt_encrypt_same_keys)
next
  assume a: "valid_keys ks \<and> isValidUtf16 s"
  then have "decrypt ks (encrypt ks s) = fromUtf8 (toUtf8 s)"
    by (intro decrypt_encrypt_same_keys) (rule conjunct1)
  also from a have "fromUtf8 (toUtf8 s) = (if s \<noteq> [] \<and> hd s = 0xfeff then tl s else s)"
    by (intro fromUtf8_toUtf8) (rule conjunct2)
  finally show "decrypt ks (encrypt ks s) = (if s \<noteq> [] \<and> hd s = 0xfeff then tl s else s)" .
next
  assume "valid_keys ks \<and> valid_keys ks' \<and> s \<noteq> []"
  then have "valid_keys ks" and "valid_keys ks'" and "s \<noteq> []"
    by blast+
  then show "decrypt ks' (encrypt ks s)
          = (case pkcs7_unpad (cbc_decrypt (encryptionKey ks') (encryptionIv ks')
                   (cbc_encrypt (encryptionKey ks) (encryptionIv ks) (pkcs7_pad (toUtf8 s)))) of
               None \<Rightarrow> []
             | Some out \<Rightarrow> fromUtf8 out)"
    by (rule decrypt_encrypt_keys)
next
  let ?x = "xor_bytes (xor_bytes (take 16 (toUtf8 s)) (encryptionIv ks)) iv"
  assume "valid_keys ks \<and> length iv = 16 \<and> 16 \<le> length (toUtf8 s)"
  then have k: "length (encryptionKey ks) = 32" and i: "length (encryptionIv ks) = 16"
    and j: "length iv = 16" and u: "16 \<le> length (toUtf8 s)"
    by (simp_all add: valid_keys_def)
  have ks: "ks = \<lparr>encryptionKey = encryptionKey ks, encryptionIv = encryptionIv ks\<rparr>"
    and ks': "ks\<lparr>encryptionIv := iv\<rparr> = \<lparr>encryptionKey = encryptionKey ks, encryptionIv = iv\<rparr>"
    by simp_all
  have "decrypt \<lparr>encryptionKey = encryptionKey ks, encryptionIv = iv\<rparr>
          (encrypt \<lparr>encryptionKey = encryptionKey ks, encryptionIv = encryptionIv ks\<rparr> s)
      = fromUtf8 (?x @ drop 16 (toUtf8 s))"
    using k i j u by (rule decrypt_encrypt_other_iv)
  then show e: "decrypt (ks\<lparr>encryptionIv := iv\<rparr>) (encrypt ks s) = fromUtf8 (?x @ drop 16 (toUtf8 s))"
    unfolding ks' by (simp only: ks [symmetric])
  from i j u have x: "length ?x = 16"
    by simp
  then have "4 \<le> length (?x @ drop 16 (toUtf8 s))"
    by simp
  then have "fromUtf8 (?x @ drop 16 (toUtf8 s)) \<noteq> []"
    by (rule fromUtf8_not_empty)
  then show "decrypt (ks\<lparr>encryptionIv := iv\<rparr>) (encrypt ks s) \<noteq> []"
    unfolding e .
  {
    assume d: "iv \<noteq> encryptionIv ks"
    show "?x @ drop 16 (toUtf8 s) \<noteq> toUtf8 s"
    proof
      assume "?x @ drop 16 (toUtf8 s) = toUtf8 s"
      then have "take 16 (?x @ drop 16 (toUtf8 s)) = take 16 (toUtf8 s)"
        by (rule arg_cong)
      with x have h: "?x = take 16 (toUtf8 s)"
        by simp
      from i u have l1: "length (take 16 (toUtf8 s)) = length (encryptionIv ks)"
        by simp
      from i j have l2: "length (encryptionIv ks) = length iv"
        by simp
      from l1 l2 h have "encryptionIv ks = iv"
        by (rule xor_bytes_other)
      with d show False
        by simp
    qed
  }
qed

theorem decrypt_encrypt_roundtrip_witness:
  "valid_keys ex_keys \<and> valid_keys ex_keys_other_iv
   \<and> decrypt ex_keys (encrypt ex_keys ex_text) = ex_text
   \<and> decrypt ex_keys_other_iv (encrypt ex_keys ex_text)
       = (case pkcs7_unpad (cbc_decrypt (encryptionKey ex_keys_other_iv) (encryptionIv ex_keys_other_iv)
                (cbc_encrypt (encryptionKey ex_keys) (encryptionIv ex_keys) (pkcs7_pad (toUtf8 ex_text)))) of
            None \<Rightarrow> []
          | Some out \<Rightarrow> fromUtf8 out)
   \<and> decrypt (ex_keys\<lparr>encryptionIv := 0x90 # map of_nat [17..<32]\<rparr>) (encrypt ex_keys ex_text)
       = [0xfffd, 0x31, 0x32, 0x33, 0x34, 0x35, 0x36, 0x37, 0x38, 0x39,
          0x61, 0x62, 0x63, 0x64, 0x65, 0x66, 0x2d, 0x78, 0x79, 0x7a]"
proof -
  note r = decrypt_encrypt_roundtrip
    [of ex_keys ex_text ex_keys_other_iv "0x90 # map of_nat [17..<32]"]
  have v: "valid_keys ex_keys" and v': "valid_keys ex_keys_other_iv"
    by (simp_all add: valid_keys_def ex_keys_def ex_keys_other_iv_def)
  have a: "isValidUtf16 ex_text"
    by code_simp
  have n: "ex_text \<noteq> []"
    by (simp add: ex_text_def)
  have l: "length (0x90 # map of_nat [17..<32] :: byte list) = 16"
    by simp
  have u: "16 \<le> length (toUtf8 ex_text)"
    by (simp add: ex_text_def)
  from v a have "decrypt ex_keys (encrypt ex_keys ex_text)
      = (if ex_text \<noteq> [] \<and> hd ex_text = 0xfeff then tl ex_text else ex_text)"
    by (intro r [THEN conjunct2, THEN conjunct1, THEN mp] conjI)
  then have one: "decrypt ex_keys (encrypt ex_keys ex_text) = ex_text"
    by (simp add: ex_text_def)
  from v v' n have two: "decrypt ex_keys_other_iv (encrypt ex_keys ex_text)
       = (case pkcs7_unpad (cbc_decrypt (encryptionKey ex_keys_other_iv) (encryptionIv ex_keys_other_iv)
                (cbc_encrypt (encryptionKey ex_keys) (encryptionIv ex_keys) (pkcs7_pad (toUtf8 ex_text)))) of
            None \<Rightarrow> []
          | Some out \<Rightarrow> fromUtf8 out)"
    by (intro r [THEN conjunct2, THEN conjunct2, THEN conjunct1, THEN mp] conjI)
  from v l u have "decrypt (ex_keys\<lparr>encryptionIv := 0x90 # map of_nat [17..<32]\<rparr>) (encrypt ex_keys ex_text)
      = fromUtf8 (xor_bytes (xor_bytes (take 16 (toUtf8 ex_text)) (encryptionIv ex_keys))
                    (0x90 # map of_nat [17..<32]) @ drop 16 (toUtf8 ex_text))"
    by (intro r [THEN conjunct2, THEN conjunct2, THEN conjunct2, THEN mp, THEN conjunct1] conjI)
  also have "\<dots> = [0xfffd, 0x31, 0x32, 0x33, 0x34, 0x35, 0x36, 0x37, 0x38, 0x39,
          0x61, 0x62, 0x63, 0x64, 0x65, 0x66, 0x2d, 0x78, 0x79, 0x7a]"
    by code_simp
  finally have three:
    "decrypt (ex_keys\<lparr>encryptionIv := 0x90 # map of_nat [17..<32]\<rparr>) (encrypt ex_keys ex_text)
       = [0xfffd, 0x31, 0x32, 0x33, 0x34, 0x35, 0x36, 0x37, 0x38, 0x39,
          0x61, 0x62, 0x63, 0x64, 0x65, 0x66, 0x2d, 0x78, 0x79, 0x7a]" .
  from v v' one two three show ?thesis
    by (intro conjI)
qed

subsection \<open>Setting the cached value again\<close>

text \<open>
  C9. For every monitored item, on either platform, \<^verbatim>\<open>setValue\<close> with a value equal to the
  cached current value is a complete no-op: the item, with its previous value, its cached
  value and its external resource (including the log of writes and the number of syncs), is
  returned as it was, and no signal is emitted.
\<close>

theorem setValue_same_value_noop:
  "v = m_value k \<Longrightarrow> setValue pf v k = (k, [])"
  by (cases pf) (simp_all add: RegistryKey_setValue_def PlistFile_setValue_def)

theorem setValue_same_value_noop_witness:
  "setValue Windows ''500'' ex_key = (ex_key, [])
   \<and> setValue MacOS ''500'' ex_key = (ex_key, [])"
  using setValue_same_value_noop [of "''500''" ex_key Windows]
    setValue_same_value_noop [of "''500''" ex_key MacOS]
  by (simp add: ex_key_def)

subsection \<open>Starting and stopping\<close>

text \<open>
  C10. \<^verbatim>\<open>startMonitoring\<close> while already running and \<^verbatim>\<open>stopMonitoring\<close> while already
  stopped change nothing at all (the timer is not restarted, no \<^verbatim>\<open>statusChanged\<close> is
  emitted); a call changes the monitoring object only when it finds it in the other state,
  and then it flips the active flag and starts (or stops) the timer; so a second call in a
  row is without effect.
\<close>

theorem start_stop_idempotent:
  "(m_monitoringActive m \<longrightarrow> startMonitoring m = m)
   \<and> (\<not> m_monitoringActive m \<longrightarrow> stopMonitoring m = m)
   \<and> (startMonitoring m \<noteq> m \<longrightarrow>
        \<not> m_monitoringActive m \<and> m_monitoringActive (startMonitoring m)
        \<and> timer_running (startMonitoring m))
   \<and> (stopMonitoring m \<noteq> m \<longrightarrow>
        m_monitoringActive m \<and> \<not> m_monitoringActive (stopMonitoring m)
        \<and> \<not> timer_running (stopMonitoring m))
   \<and> startMonitoring (startMonitoring m) = startMonitoring m
   \<and> stopMonitoring (stopMonitoring m) = stopMonitoring m"
  by (simp add: startMonitoring_def stopMonitoring_def emit_def)

theorem start_stop_idempotent_witness:
  "startMonitoring ex_monitoring = ex_monitoring
   \<and> stopMonitoring (stopMonitoring ex_monitoring) = stopMonitoring ex_monitoring
   \<and> \<not> m_monitoringActive (stopMonitoring ex_monitoring)
   \<and> emitted (stopMonitoring ex_monitoring) = [TimerStop, StatusChanged ''Monitoring stopped'']"
  using start_stop_idempotent [of ex_monitoring]
  by (simp add: ex_monitoring_def stopMonitoring_def emit_def)

end
